theory Spec2Isabelle
  imports Complex_Main "HOL-Library.Char_ord" "HOL-Library.List_Lexorder" "HOL-Library.Sublist"
    "HOL-Library.Multiset"
begin

section \<open>Exceptions and terminal output\<close>

text \<open>
  The exception classes that \<^verbatim>\<open>main.py\<close> tells apart. \<open>IOError\<close> stands for the class
  and its subclasses (socket errors); \<open>BadHostKeyException\<close>, \<open>AuthException\<close> and
  \<open>SSHException\<close> are the three classes of the second \<^verbatim>\<open>except\<close> clause of
  \<^verbatim>\<open>Executor._exec\<close>. \<open>Other_exception\<close> is any class that neither clause names
  (\<^verbatim>\<open>ValueError\<close> from \<^verbatim>\<open>int(...)\<close>, \<^verbatim>\<open>EOFError\<close>, a decoding error, ...).
\<close>

datatype exc_class =
    IOError
  | BadHostKeyException
  | AuthException
  | SSHException
  | AttributeError
  | KeyboardInterrupt
  | Other_exception

text \<open>
  An exception object: its class, what \<^verbatim>\<open>str(e)\<close> returns, and its attribute
  \<^verbatim>\<open>message\<close>, which is \<open>None\<close> when the object has no such attribute (reading it then
  raises \<^verbatim>\<open>AttributeError\<close>).
\<close>

record exc =
  cls :: exc_class
  str_of :: string
  message :: "string option"

definition is_IOError :: "exc \<Rightarrow> bool" where
  "is_IOError e = (cls e = IOError)"

definition is_ssh_error :: "exc \<Rightarrow> bool" where
  "is_ssh_error e = (cls e = BadHostKeyException \<or> cls e = AuthException \<or> cls e = SSHException)"

definition attribute_error :: exc where
  "attribute_error =
     \<lparr>cls = AttributeError, str_of = ''object has no attribute message'', message = None\<rparr>"

definition keyboard_interrupt :: exc where
  "keyboard_interrupt = \<lparr>cls = KeyboardInterrupt, str_of = [], message = None\<rparr>"

text \<open>
  Terminal output is kept symbolic. A \<open>piece\<close> is a plain string, the result of
  \<^verbatim>\<open>colored(text, color, attrs)\<close> (colour \<open>None\<close> when the call gives none), or a coloured
  number. \<open>pieces\<close> is a sequence of them, as a format string puts them together, and
  \<open>Print\<close> is one call of \<^verbatim>\<open>print\<close> with its positional arguments in order.
\<close>

datatype piece =
    Str string
  | Colored string "string option" "string list"
  | Colored_num nat "string option" "string list"

type_synonym pieces = "piece list"

datatype print_call = Print "pieces list"

fun chars_of :: "piece \<Rightarrow> string" where
  "chars_of (Str s) = s"
| "chars_of (Colored s c a) = s"
| "chars_of (Colored_num n c a) = []"

fun colour_of :: "piece \<Rightarrow> string option" where
  "colour_of (Str s) = None"
| "colour_of (Colored s c a) = c"
| "colour_of (Colored_num n c a) = c"

text \<open>\<^verbatim>\<open>'{0}: {1}'.format(host, line)\<close>\<close>

definition host_line :: "string \<Rightarrow> string \<Rightarrow> string" where
  "host_line h l = h @ '': '' @ l"

text \<open>A print call whose first argument is a single piece starting with \<open>host: \<close>.\<close>

fun host_prefixed :: "string \<Rightarrow> print_call \<Rightarrow> bool" where
  "host_prefixed h (Print ([p] # rest)) = prefix (h @ '': '') (chars_of p)"
| "host_prefixed h (Print ts) = False"

text \<open>
  \<^verbatim>\<open>line.rstrip()\<close>: trailing whitespace removed. A character stands for a code point
  below 256; the whitespace of a Python 3 string in that range is tab, line feed,
  vertical tab, form feed, carriage return, the four separators \<open>0x1C\<close> to \<open>0x1F\<close>,
  space, next line (\<open>0x85\<close>) and no-break space (\<open>0xA0\<close>).
\<close>

definition is_space :: "char \<Rightarrow> bool" where
  "is_space c =
     (c \<in> set [CHR 0x09, CHR 0x0A, CHR 0x0B, CHR 0x0C, CHR 0x0D,
                CHR 0x1C, CHR 0x1D, CHR 0x1E, CHR 0x1F, CHR 0x20, CHR 0x85, CHR 0xA0])"

definition rstrip :: "string \<Rightarrow> string" where
  "rstrip s = rev (dropWhile is_space (rev s))"

section \<open>The Worker: \<^verbatim>\<open>Executor._exec\<close>\<close>

text \<open>
  A stream returned by \<^verbatim>\<open>exec_command\<close>: the lines its iteration yields, in order, and
  the exception that ends the iteration, if one does.
\<close>

record stream =
  lines :: "string list"
  fails :: "exc option"

text \<open>
  What the remote side does for one Worker: the outcome of each call on the SSH client.
  \<open>None\<close> is a call that returns, \<open>Some e\<close> one that raises \<open>e\<close>. \<open>client_setup\<close> is
  lines 45 to 47 (the client is created, reads the system host keys and gets its policy),
  \<open>client_close\<close> is the \<^verbatim>\<open>client.close()\<close> of the \<^verbatim>\<open>finally\<close> clause. \<open>int_of\<close> is
  the builtin \<^verbatim>\<open>int\<close> on a string of the configuration. \<open>exit_status\<close> is the exit
  status of the remote command, which \<^verbatim>\<open>_exec\<close> never reads.
\<close>

record remote =
  client_setup :: "exc option"
  client_close :: "exc option"
  int_of :: "string \<Rightarrow> exc + int"
  connect :: "string option \<Rightarrow> int \<Rightarrow> string option \<Rightarrow> exc option"
  exec_command :: "string \<Rightarrow> exc + (stream \<times> stream \<times> stream)"
  exit_status :: int
  open_sftp :: "exc option"
  sftp_put :: "string \<Rightarrow> string \<Rightarrow> exc option"
  sftp_close :: "exc option"

type_synonym config = "string \<rightharpoonup> string"

datatype operation =
    SSHExecutor string
  | CopyExecutor string string

text \<open>
  The local variables of \<^verbatim>\<open>_exec\<close>, what it has printed, and whether the client has
  been closed. \<^verbatim>\<open>print\<close> is taken to return.
\<close>

record wstate =
  exitcode :: int
  printed :: "print_call list"
  closed :: bool

definition emit :: "print_call \<Rightarrow> wstate \<Rightarrow> wstate" where
  "emit l s = s\<lparr>printed := printed s @ [l]\<rparr>"

text \<open>Lines 49 to 51: the arguments are evaluated, then \<^verbatim>\<open>client.connect\<close> is called.\<close>

definition do_connect :: "remote \<Rightarrow> config \<Rightarrow> exc option" where
  "do_connect r cfg =
     (case (case cfg ''port'' of None \<Rightarrow> Inr 22 | Some p \<Rightarrow> int_of r p) of
        Inl e \<Rightarrow> Some e
      | Inr port \<Rightarrow> connect r (cfg ''hostname'') port (cfg ''user''))"

text \<open>
  \<^verbatim>\<open>exec_command\<close> of the two subclasses. The copy returns three Python lists, whose
  iteration cannot fail.
\<close>

definition list_stream :: "string list \<Rightarrow> stream" where
  "list_stream ls = \<lparr>lines = ls, fails = None\<rparr>"

fun sub_exec_command :: "remote \<Rightarrow> string \<Rightarrow> operation \<Rightarrow> exc + (stream \<times> stream \<times> stream)" where
  "sub_exec_command r h (SSHExecutor c) = exec_command r c"
| "sub_exec_command r h (CopyExecutor source destination) =
     (case open_sftp r of
        Some e \<Rightarrow> Inl e
      | None \<Rightarrow>
         (case sftp_put r source destination of
            Some e \<Rightarrow> Inl e
          | None \<Rightarrow>
             (case sftp_close r of
                Some e \<Rightarrow> Inl e
              | None \<Rightarrow>
                  Inr (list_stream [], list_stream [''Copied to '' @ h], list_stream []))))"

text \<open>The two \<^verbatim>\<open>for\<close> loops, lines 53 to 55 and 56 to 59.\<close>

fun stdout_loop :: "string \<Rightarrow> string list \<Rightarrow> wstate \<Rightarrow> wstate" where
  "stdout_loop h [] s = s"
| "stdout_loop h (l # ls) s =
     stdout_loop h ls (emit (Print [[Str (host_line h (rstrip l))]]) s)"

fun stderr_loop :: "string \<Rightarrow> string list \<Rightarrow> wstate \<Rightarrow> wstate" where
  "stderr_loop h [] s = s"
| "stderr_loop h (l # ls) s =
     stderr_loop h ls
       ((emit (Print [[Colored (host_line h (rstrip l)) (Some ''red'') []]]) s)\<lparr>exitcode := 1\<rparr>)"

text \<open>
  The body of the \<^verbatim>\<open>try\<close>: the state where it stopped, and the exception in flight
  there (\<open>None\<close> when the body ran to its end).
\<close>

definition try_body :: "remote \<Rightarrow> string \<Rightarrow> config \<Rightarrow> operation \<Rightarrow> wstate \<Rightarrow> exc option \<times> wstate" where
  "try_body r h cfg oper s =
     (case do_connect r cfg of
        Some e \<Rightarrow> (Some e, s)
      | None \<Rightarrow>
         (case sub_exec_command r h oper of
            Inl e \<Rightarrow> (Some e, s)
          | Inr (stdin, stdout, stderr) \<Rightarrow>
             (let s1 = stdout_loop h (lines stdout) s in
              case fails stdout of
                Some e \<Rightarrow> (Some e, s1)
              | None \<Rightarrow> (fails stderr, stderr_loop h (lines stderr) s1))))"

text \<open>
  The two \<^verbatim>\<open>except\<close> clauses, lines 60 to 65. The second one reads \<^verbatim>\<open>e.message\<close>
  before it prints; when the attribute is missing the handler itself raises, and neither
  the print nor \<^verbatim>\<open>exitcode = 1\<close> is reached. Its print has the colour outside the call
  of \<^verbatim>\<open>colored\<close>, as a second argument of \<^verbatim>\<open>print\<close>.
\<close>

definition except_clauses :: "string \<Rightarrow> exc option \<times> wstate \<Rightarrow> exc option \<times> wstate" where
  "except_clauses h bs =
     (case fst bs of
        None \<Rightarrow> bs
      | Some e \<Rightarrow>
          if is_IOError e then
            (None, (emit (Print [[Colored (host_line h (str_of e)) (Some ''red'') []]]) (snd bs))
                     \<lparr>exitcode := 1\<rparr>)
          else if is_ssh_error e then
            (case message e of
               None \<Rightarrow> (Some attribute_error, snd bs)
             | Some m \<Rightarrow>
                 (None, (emit (Print [[Colored (host_line h m) None []], [Str ''red'']]) (snd bs))
                          \<lparr>exitcode := 1\<rparr>))
          else (Some e, snd bs))"

text \<open>
  The exceptions that one of the two clauses handles to its end: the handler prints its
  line and sets the exit code to 1.
\<close>

definition handled :: "exc \<Rightarrow> bool" where
  "handled e = (is_IOError e \<or> (is_ssh_error e \<and> message e \<noteq> None))"

text \<open>
  The \<^verbatim>\<open>finally\<close> clause: \<^verbatim>\<open>client.close()\<close>, then \<^verbatim>\<open>return exitcode\<close>. A
  \<^verbatim>\<open>return\<close> inside \<^verbatim>\<open>finally\<close> discards the exception in flight; when
  \<^verbatim>\<open>client.close()\<close> raises, the \<^verbatim>\<open>return\<close> is not reached and that exception leaves
  the function. The result of a function is \<open>Inl e\<close> when \<open>e\<close> leaves it, \<open>Inr v\<close> when
  it returns \<open>v\<close>.
\<close>

definition finally_clause :: "remote \<Rightarrow> exc option \<times> wstate \<Rightarrow> (exc + int) \<times> wstate" where
  "finally_clause r bs =
     (case client_close r of
        Some e \<Rightarrow> (Inl e, snd bs)
      | None \<Rightarrow> (Inr (exitcode (snd bs)), (snd bs)\<lparr>closed := True\<rparr>))"

definition initial_wstate :: wstate where
  "initial_wstate = \<lparr>exitcode = 0, printed = [], closed = False\<rparr>"

text \<open>
  \<^verbatim>\<open>_exec\<close>: line 44, the three calls before the \<^verbatim>\<open>try\<close>, which nothing guards, and
  the \<^verbatim>\<open>try\<close> statement.
\<close>

definition exec :: "remote \<Rightarrow> string \<Rightarrow> config \<Rightarrow> operation \<Rightarrow> (exc + int) \<times> wstate" where
  "exec r h cfg oper =
     (case client_setup r of
        Some e \<Rightarrow> (Inl e, initial_wstate)
      | None \<Rightarrow> finally_clause r (except_clauses h (try_body r h cfg oper initial_wstate)))"

text \<open>
  \<^verbatim>\<open>run\<close>: \<^verbatim>\<open>sys.exit(self._exec())\<close>. The exit code of the Worker process is the
  value returned; an exception that leaves \<^verbatim>\<open>run\<close> ends the process with code 1.
\<close>

definition run :: "remote \<Rightarrow> string \<Rightarrow> config \<Rightarrow> operation \<Rightarrow> int" where
  "run r h cfg oper = (case fst (exec r h cfg oper) of Inl e \<Rightarrow> 1 | Inr n \<Rightarrow> n)"

section \<open>Host selection: \<^verbatim>\<open>get_hosts\<close>\<close>

text \<open>
  The regular-expression library is not part of the repository. A compiled pattern is
  modelled by a regular expression over characters; \<open>Dot\<close> is \<^verbatim>\<open>.\<close>, any character
  but a line feed. \<open>lang\<close> is the set of strings that a pattern matches in full.
  Patterns with assertions (\<^verbatim>\<open>$\<close>, \<^verbatim>\<open>\Z\<close>, \<^verbatim>\<open>\b\<close>, look-ahead) denote no such
  expression and are outside this model.
\<close>

datatype rexp =
    Zero
  | One
  | Atom char
  | Dot
  | Alt rexp rexp
  | Seq rexp rexp
  | Star rexp

inductive_set kleene :: "string set \<Rightarrow> string set" for A :: "string set" where
  kleene_empty: "[] \<in> kleene A"
| kleene_more: "u \<in> A \<Longrightarrow> v \<in> kleene A \<Longrightarrow> u @ v \<in> kleene A"

fun lang :: "rexp \<Rightarrow> string set" where
  "lang Zero = {}"
| "lang One = {[]}"
| "lang (Atom c) = {[c]}"
| "lang Dot = {[c] | c. c \<noteq> CHR 0x0A}"
| "lang (Alt r q) = lang r \<union> lang q"
| "lang (Seq r q) = {u @ v | u v. u \<in> lang r \<and> v \<in> lang q}"
| "lang (Star r) = kleene (lang r)"

fun nullable :: "rexp \<Rightarrow> bool" where
  "nullable Zero = False"
| "nullable One = True"
| "nullable (Atom c) = False"
| "nullable Dot = False"
| "nullable (Alt r q) = (nullable r \<or> nullable q)"
| "nullable (Seq r q) = (nullable r \<and> nullable q)"
| "nullable (Star r) = True"

fun deriv :: "char \<Rightarrow> rexp \<Rightarrow> rexp" where
  "deriv c Zero = Zero"
| "deriv c One = Zero"
| "deriv c (Atom d) = (if c = d then One else Zero)"
| "deriv c Dot = (if c = CHR 0x0A then Zero else One)"
| "deriv c (Alt r q) = Alt (deriv c r) (deriv c q)"
| "deriv c (Seq r q) =
     (if nullable r then Alt (Seq (deriv c r) q) (deriv c q) else Seq (deriv c r) q)"
| "deriv c (Star r) = Seq (deriv c r) (Star r)"

text \<open>\<^verbatim>\<open>rex.fullmatch(s)\<close>: the whole string is matched.\<close>

fun fullmatch :: "rexp \<Rightarrow> string \<Rightarrow> bool" where
  "fullmatch r [] = nullable r"
| "fullmatch r (c # cs) = fullmatch (deriv c r) cs"

text \<open>
  \<^verbatim>\<open>rex.match(s)\<close>, as a truth value: the pattern is matched at the start of the string,
  and the match may end anywhere.
\<close>

fun re_match :: "rexp \<Rightarrow> string \<Rightarrow> bool" where
  "re_match r [] = nullable r"
| "re_match r (c # cs) = (nullable r \<or> re_match (deriv c r) cs)"

text \<open>
  \<^verbatim>\<open>re.compile\<close>. A pattern without a metacharacter is the sequence of its characters,
  each matching itself. For the other patterns the syntax of the library decides; its
  parser is the parameter \<open>parse\<close>, which gives \<open>None\<close> where \<^verbatim>\<open>re.compile\<close> raises.
\<close>

definition metachar :: "char \<Rightarrow> bool" where
  "metachar c = (c \<in> set ''.^$*+?{}[]()|'' \<or> c = CHR 0x5C)"

fun literal :: "string \<Rightarrow> rexp" where
  "literal [] = One"
| "literal (c # cs) = Seq (Atom c) (literal cs)"

definition re_compile :: "(string \<Rightarrow> rexp option) \<Rightarrow> string \<Rightarrow> rexp option" where
  "re_compile parse pattern =
     (if list_ex metachar pattern then parse pattern else Some (literal pattern))"

text \<open>
  What the invocation finds on the local machine: the outcome of
  \<^verbatim>\<open>util.load_host_keys\<close> (an exception, or the host identifiers of the store in the
  order its iteration gives them), the pattern parser, \<^verbatim>\<open>os.path.isfile\<close>, the outcome
  of opening and parsing \<^verbatim>\<open>~/.ssh/config\<close> (an exception, or the lookup of the parsed
  file), and the remote side that a Worker for each host meets.
\<close>

record local_env =
  load_host_keys :: "exc + string list"
  re_parse :: "string \<Rightarrow> rexp option"
  isfile :: "string \<Rightarrow> bool"
  ssh_config :: "exc + (string \<Rightarrow> config)"
  remote_of :: "string \<Rightarrow> remote"

text \<open>
  \<^verbatim>\<open>config.lookup(host)\<close>. It is called inside the loop of \<^verbatim>\<open>start_procs\<close> only,
  which is not reached when the file could not be parsed.
\<close>

definition lookup :: "local_env \<Rightarrow> string \<Rightarrow> config" where
  "lookup env h = (case ssh_config env of Inl e \<Rightarrow> Map.empty | Inr l \<Rightarrow> l h)"

text \<open>
  How a function of the program ends: it returns, \<^verbatim>\<open>sys.exit\<close> is called (with a
  status or with a message, which exits with status 1), an exception leaves it, or the
  schedule it was run with ended before it did.
\<close>

datatype exit_arg = Status int | Message pieces

datatype 'a result = Return 'a | Exit exit_arg | Raise exc | Unfinished

fun exit_code :: "exit_arg \<Rightarrow> int" where
  "exit_code (Status n) = n"
| "exit_code (Message m) = 1"

text \<open>\<^verbatim>\<open>sep.join(xs)\<close>\<close>

fun join :: "string \<Rightarrow> string list \<Rightarrow> string" where
  "join sep [] = []"
| "join sep [x] = x"
| "join sep (x # y # ys) = x @ sep @ join sep (y # ys)"

text \<open>Lines 113 to 115: the loop over the keys of the store.\<close>

fun match_loop :: "rexp \<Rightarrow> string list \<Rightarrow> string list \<Rightarrow> string list" where
  "match_loop rex [] hosts = hosts"
| "match_loop rex (key # keys) hosts =
     match_loop rex keys (if re_match rex key then hosts @ [key] else hosts)"

definition hosts_report :: "string list \<Rightarrow> print_call list" where
  "hosts_report hosts =
     (let match_success = (if length hosts > 0 then ''green'' else ''red'') in
      [Print [[Str ''>>> '', Colored_num (length hosts) (Some match_success) [''bold''],
               Str '' Hosts matched:'']],
       Print [[Str []]],
       Print [[Str (join [CHR 0x0A] (sort hosts))]],
       Print [[Str []]]])"

definition get_hosts :: "local_env \<Rightarrow> string \<Rightarrow> print_call list \<times> string list result" where
  "get_hosts env hostregex =
     (case load_host_keys env of
        Inl e \<Rightarrow>
          if is_ssh_error e then
            (let header = Print [[Colored ''Error in ~/.ssh/known_hosts:'' (Some ''red'') [''bold'']]]
             in case message e of
                  None \<Rightarrow> ([header], Raise attribute_error)
                | Some m \<Rightarrow> ([header], Exit (Message [Colored m (Some ''red'') []])))
          else ([], Raise e)
      | Inr keys \<Rightarrow>
         (case re_compile (re_parse env) hostregex of
            None \<Rightarrow>
              ([], Exit (Message [Colored ''Invalid regular expression!'' (Some ''red'') [''bold'']]))
          | Some rex \<Rightarrow>
              (let hosts = match_loop rex keys [] in (hosts_report hosts, Return hosts))))"

section \<open>The report: \<^verbatim>\<open>print_result\<close>\<close>

text \<open>
  A Worker process as the Orchestrator sees it. A running process and one that was sent
  the termination signal and is not yet gone have no exit code (\<^verbatim>\<open>p.exitcode\<close> is
  \<^verbatim>\<open>None\<close>); a process killed by the signal has exit code \<open>-15\<close>.
\<close>

datatype status = Running | Signalled | Exited int

record process =
  host :: string
  conf :: config
  oper :: operation
  status :: status

fun code_of :: "status \<Rightarrow> int option" where
  "code_of Running = None"
| "code_of Signalled = None"
| "code_of (Exited c) = Some c"

definition proc_exitcode :: "process \<Rightarrow> int option" where
  "proc_exitcode p = code_of (status p)"

text \<open>\<^verbatim>\<open>WorkerResult.succeeded\<close>: the test \<^verbatim>\<open>p.exitcode == 0\<close>.\<close>

definition succeeded :: "process \<Rightarrow> bool" where
  "succeeded p = (proc_exitcode p = Some 0)"

definition num_ok :: "process list \<Rightarrow> nat" where
  "num_ok ps = sum_list (map (\<lambda>p. 1) (filter (\<lambda>p. proc_exitcode p = Some 0) ps))"

definition failures :: "process list \<Rightarrow> process list" where
  "failures ps = sort_key host (filter (\<lambda>p. proc_exitcode p \<noteq> Some 0) ps)"

definition print_result :: "process list \<Rightarrow> print_call list" where
  "print_result ps =
     [Print [[Str ''>>> '', Colored_num (num_ok ps) (Some ''green'') [],
              Str '' successful invocations.'']],
      Print [[Str ''>>> '', Colored_num (length (failures ps)) (Some ''red'') [],
              Str '' failures:'']]]
     @ map (\<lambda>p. Print [[Str (CHR 0x09 # host p)]]) (failures ps)"

section \<open>The Orchestrator: \<^verbatim>\<open>start_procs\<close>\<close>

text \<open>
  The Orchestrator runs beside its Workers, so \<^verbatim>\<open>start_procs\<close> is a state machine
  driven by a schedule. The state holds the Worker processes started so far (a process
  is named by its position there), the Python list \<^verbatim>\<open>processes\<close> (which refers to
  them), the place the Orchestrator has reached, and the calls it has completed.
  Creating and starting a process are taken to return.
\<close>

datatype pc =
    For_loop "string list"
  | Joining nat "string list"
  | Sleeping nat "string list"
  | While_test
  | Drain_sleep
  | Returned
  | Raised exc

datatype action = Started string | Joined string | Slept real

record ostate =
  children :: "process list"
  processes :: "nat list"
  pc :: pc
  actions :: "action list"

text \<open>
  \<^verbatim>\<open>multiprocessing.active_children()\<close>: the processes that have not ended.
  \<^verbatim>\<open>stop\<close> sends the termination signal, which does nothing to a process that has ended.
\<close>

definition alive :: "process \<Rightarrow> bool" where
  "alive p = (code_of (status p) = None)"

definition active_children :: "ostate \<Rightarrow> process list" where
  "active_children s = filter alive (children s)"

definition stop :: "process \<Rightarrow> process" where
  "stop p = (if status p = Running then p\<lparr>status := Signalled\<rparr> else p)"

fun stop_all :: "nat list \<Rightarrow> process list \<Rightarrow> process list" where
  "stop_all [] cs = cs"
| "stop_all (i # is) cs = stop_all is (cs[i := stop (cs ! i)])"

text \<open>
  One step of the Orchestrator from each place. \<open>For_loop hs\<close> is the head of the
  \<^verbatim>\<open>for\<close> loop with the hosts \<open>hs\<close> still to come: the step creates and starts the
  Worker and, when the interval is positive, enters \<^verbatim>\<open>process.join()\<close>. A join returns
  only once the process has ended; until then the step changes nothing.
\<close>

fun orch :: "local_env \<Rightarrow> real \<Rightarrow> operation \<Rightarrow> pc \<Rightarrow> ostate \<Rightarrow> ostate" where
  "orch env interval starter (For_loop []) s = s\<lparr>pc := While_test\<rparr>"
| "orch env interval starter (For_loop (h # hs)) s =
     (let process = \<lparr>host = h, conf = lookup env h, oper = starter, status = Running\<rparr>;
          pid = length (children s);
          s1 = s\<lparr>children := children s @ [process], actions := actions s @ [Started h]\<rparr>
      in if interval > 0 then s1\<lparr>pc := Joining pid hs\<rparr>
         else s1\<lparr>processes := processes s @ [pid], pc := For_loop hs\<rparr>)"
| "orch env interval starter (Joining pid hs) s =
     (if alive (children s ! pid) then s
      else s\<lparr>pc := Sleeping pid hs, actions := actions s @ [Joined (host (children s ! pid))]\<rparr>)"
| "orch env interval starter (Sleeping pid hs) s =
     s\<lparr>processes := processes s @ [pid], pc := For_loop hs,
       actions := actions s @ [Slept interval]\<rparr>"
| "orch env interval starter While_test s =
     (if active_children s \<noteq> [] then s\<lparr>pc := Drain_sleep\<rparr> else s\<lparr>pc := Returned\<rparr>)"
| "orch env interval starter Drain_sleep s = s\<lparr>pc := While_test\<rparr>"
| "orch env interval starter Returned s = s"
| "orch env interval starter (Raised e) s = s"

text \<open>
  A keyboard interrupt reaches the Orchestrator. In the \<^verbatim>\<open>sleep(0.3)\<close> of the last
  loop it is caught: every process of the list is stopped and the loop is left. Anywhere
  else in \<^verbatim>\<open>start_procs\<close> (at the head of the \<^verbatim>\<open>for\<close> loop, in
  \<^verbatim>\<open>process.join()\<close>, in \<^verbatim>\<open>sleep(interval)\<close>, in the test of the \<^verbatim>\<open>while\<close> loop)
  nothing catches it and it leaves the function. Once \<^verbatim>\<open>start_procs\<close> has ended it has
  no effect on its state.
\<close>

fun interrupt :: "pc \<Rightarrow> ostate \<Rightarrow> ostate" where
  "interrupt (For_loop hs) s = s\<lparr>pc := Raised keyboard_interrupt\<rparr>"
| "interrupt (Joining pid hs) s = s\<lparr>pc := Raised keyboard_interrupt\<rparr>"
| "interrupt (Sleeping pid hs) s = s\<lparr>pc := Raised keyboard_interrupt\<rparr>"
| "interrupt While_test s = s\<lparr>pc := Raised keyboard_interrupt\<rparr>"
| "interrupt Drain_sleep s =
     s\<lparr>children := stop_all (processes s) (children s), pc := Returned\<rparr>"
| "interrupt Returned s = s"
| "interrupt (Raised e) s = s"

text \<open>
  A running Worker ends with the exit code of its \<^verbatim>\<open>run\<close>; a signalled one ends with
  \<open>-15\<close>.
\<close>

definition worker_exit :: "local_env \<Rightarrow> nat \<Rightarrow> ostate \<Rightarrow> ostate" where
  "worker_exit env i s =
     (if i < length (children s) \<and> status (children s ! i) = Running then
        (let p = children s ! i;
             c = run (remote_of env (host p)) (host p) (conf p) (oper p)
         in s\<lparr>children := (children s)[i := p\<lparr>status := Exited c\<rparr>]\<rparr>)
      else s)"

definition reaped :: "nat \<Rightarrow> ostate \<Rightarrow> ostate" where
  "reaped i s =
     (if i < length (children s) \<and> status (children s ! i) = Signalled then
        s\<lparr>children := (children s)[i := (children s ! i)\<lparr>status := Exited (- 15)\<rparr>]\<rparr>
      else s)"

text \<open>
  The schedule: which of the processes moves next. An event that cannot happen in a state
  leaves it as it is, so every list of events is a schedule.
\<close>

datatype event = Orch | Interrupt | Worker_exit nat | Reaped nat

fun step :: "local_env \<Rightarrow> real \<Rightarrow> operation \<Rightarrow> event \<Rightarrow> ostate \<Rightarrow> ostate" where
  "step env interval starter Orch s = orch env interval starter (pc s) s"
| "step env interval starter Interrupt s = interrupt (pc s) s"
| "step env interval starter (Worker_exit i) s = worker_exit env i s"
| "step env interval starter (Reaped i) s = reaped i s"

fun run_events :: "local_env \<Rightarrow> real \<Rightarrow> operation \<Rightarrow> event list \<Rightarrow> ostate \<Rightarrow> ostate" where
  "run_events env interval starter [] s = s"
| "run_events env interval starter (e # es) s =
     run_events env interval starter es (step env interval starter e s)"

definition initial :: "string list \<Rightarrow> ostate" where
  "initial hosts = \<lparr>children = [], processes = [], pc = For_loop hosts, actions = []\<rparr>"

text \<open>
  \<^verbatim>\<open>start_procs\<close>. Lines 137 and 138 open and parse \<^verbatim>\<open>~/.ssh/config\<close> before the
  loop; when that raises, the exception leaves \<^verbatim>\<open>start_procs\<close> and nothing is launched.
\<close>

definition start_procs :: "local_env \<Rightarrow> real \<Rightarrow> string list \<Rightarrow> operation \<Rightarrow> event list \<Rightarrow> ostate" where
  "start_procs env interval hosts starter evs =
     (case ssh_config env of
        Inl e \<Rightarrow> (initial hosts)\<lparr>pc := Raised e\<rparr>
      | Inr l \<Rightarrow> run_events env interval starter evs (initial hosts))"

text \<open>The process objects that \<^verbatim>\<open>start_procs\<close> returns: the list \<^verbatim>\<open>processes\<close>.\<close>

definition returned_processes :: "ostate \<Rightarrow> process list" where
  "returned_processes s = map (\<lambda>i. children s ! i) (processes s)"

section \<open>\<^verbatim>\<open>cmd\<close>, \<^verbatim>\<open>copy\<close> and \<^verbatim>\<open>dispatch\<close>\<close>

text \<open>
  An invocation gives what the Orchestrator printed, how it ended, and the state of
  \<^verbatim>\<open>start_procs\<close>, which is \<open>None\<close> when \<^verbatim>\<open>start_procs\<close> was never entered.
\<close>

type_synonym outcome = "print_call list \<times> unit result \<times> ostate option"

definition report_after :: "print_call list \<Rightarrow> ostate \<Rightarrow> outcome" where
  "report_after header s =
     (case pc s of
        Returned \<Rightarrow> (header @ print_result (returned_processes s), Return (), Some s)
      | Raised e \<Rightarrow> (header, Raise e, Some s)
      | _ \<Rightarrow> (header, Unfinished, Some s))"

definition cmd :: "local_env \<Rightarrow> string list \<Rightarrow> string \<Rightarrow> real \<Rightarrow> event list \<Rightarrow> outcome" where
  "cmd env hosts command interval evs =
     report_after [Print [[Str ''>>> Starting to execute the command(s):'']], Print [[Str []]]]
       (start_procs env interval hosts (SSHExecutor command) evs)"

definition copy :: "local_env \<Rightarrow> string \<Rightarrow> string list \<Rightarrow> string \<Rightarrow> real \<Rightarrow> event list \<Rightarrow> outcome" where
  "copy env source hosts destination interval evs =
     (if \<not> isfile env source then
        ([Print [[Colored (''>>> Source '' @ source @ '' does not exist'') (Some ''red'') []]]],
         Exit (Status 1), None)
      else
        report_after [Print [[Str ''>>> Starting to copy the file:'']], Print [[Str []]]]
          (start_procs env interval hosts (CopyExecutor source destination) evs))"

datatype args =
    Command_args string real string
  | Copy_args string real string string

fun hostregex :: "args \<Rightarrow> string" where
  "hostregex (Command_args rx i c) = rx"
| "hostregex (Copy_args rx i src dst) = rx"

fun after_hosts :: "local_env \<Rightarrow> args \<Rightarrow> string list \<Rightarrow> event list \<Rightarrow> outcome" where
  "after_hosts env (Command_args rx i c) hosts evs = cmd env hosts c i evs"
| "after_hosts env (Copy_args rx i src dst) hosts evs = copy env src hosts dst i evs"

definition dispatch :: "local_env \<Rightarrow> args \<Rightarrow> event list \<Rightarrow> outcome" where
  "dispatch env a evs =
     (case get_hosts env (hostregex a) of
        (out, Return hosts) \<Rightarrow>
          (case after_hosts env a hosts evs of (out2, r, st) \<Rightarrow> (out @ out2, r, st))
      | (out, Exit x) \<Rightarrow> (out, Exit x, None)
      | (out, Raise e) \<Rightarrow> (out, Raise e, None)
      | (out, Unfinished) \<Rightarrow> (out, Unfinished, None))"


text \<open>The number of Workers that an invocation launched.\<close>

fun launched :: "outcome \<Rightarrow> nat" where
  "launched (out, r, None) = 0"
| "launched (out, r, Some s) = length (children s)"

section \<open>Invariants of the Orchestrator\<close>

text \<open>
  What the Orchestrator does for a list of hosts when the interval is positive: for each
  host in turn it starts the Worker, joins it and sleeps.
\<close>

definition script :: "real \<Rightarrow> string list \<Rightarrow> action list" where
  "script interval hs = concat (map (\<lambda>h. [Started h, Joined h, Slept interval]) hs)"

text \<open>A process has ended when it has an exit code.\<close>

definition ended :: "process \<Rightarrow> bool" where
  "ended p = (\<not> alive p)"

text \<open>
  The bookkeeping of \<^verbatim>\<open>start_procs\<close> at each place: the Workers started so far are
  those of the hosts already taken from the list, in order, and \<^verbatim>\<open>processes\<close> holds
  all of them but the one being joined. Where an exception has left the function, the
  Workers started are those of a prefix of the hosts.
\<close>

fun wf_pc :: "string list \<Rightarrow> pc \<Rightarrow> ostate \<Rightarrow> bool" where
  "wf_pc hosts (For_loop hs) s =
     (map host (children s) @ hs = hosts \<and> processes s = [0..<length (children s)])"
| "wf_pc hosts (Joining i hs) s =
     (map host (children s) @ hs = hosts \<and> length (children s) = Suc i \<and> processes s = [0..<i])"
| "wf_pc hosts (Sleeping i hs) s =
     (map host (children s) @ hs = hosts \<and> length (children s) = Suc i \<and> processes s = [0..<i])"
| "wf_pc hosts (Raised e) s = prefix (map host (children s)) hosts"
| "wf_pc hosts p s =
     (map host (children s) = hosts \<and> processes s = [0..<length (children s)])"

definition wf :: "string list \<Rightarrow> ostate \<Rightarrow> bool" where
  "wf hosts s = wf_pc hosts (pc s) s"

text \<open>
  With a positive interval: every Worker but the one being joined has ended, and the
  calls completed so far follow the script. The \<^verbatim>\<open>sleep(0.3)\<close> of the last loop is
  never reached.
\<close>

fun thr_pc :: "real \<Rightarrow> string list \<Rightarrow> pc \<Rightarrow> ostate \<Rightarrow> bool" where
  "thr_pc t hosts (Joining i hs) s =
     (list_all ended (take i (children s)) \<and>
      actions s = script t (take i (map host (children s))) @ [Started (map host (children s) ! i)])"
| "thr_pc t hosts (Sleeping i hs) s =
     (list_all ended (children s) \<and>
      actions s = script t (take i (map host (children s)))
                  @ [Started (map host (children s) ! i), Joined (map host (children s) ! i)])"
| "thr_pc t hosts Drain_sleep s = False"
| "thr_pc t hosts (Raised e) s =
     (list_all ended (take (length (children s) - 1) (children s)) \<and>
      prefix (actions s) (script t hosts))"
| "thr_pc t hosts p s =
     (list_all ended (children s) \<and> actions s = script t (map host (children s)))"

definition thr :: "real \<Rightarrow> string list \<Rightarrow> ostate \<Rightarrow> bool" where
  "thr t hosts s = (wf hosts s \<and> thr_pc t hosts (pc s) s)"

text \<open>
  Without a positive interval: the Orchestrator never joins and never sleeps in the
  \<^verbatim>\<open>for\<close> loop, and the calls completed so far are the launches.
\<close>

fun conc_pc :: "pc \<Rightarrow> ostate \<Rightarrow> bool" where
  "conc_pc (Joining i hs) s = False"
| "conc_pc (Sleeping i hs) s = False"
| "conc_pc p s = (actions s = map Started (map host (children s)))"

definition conc :: "string list \<Rightarrow> ostate \<Rightarrow> bool" where
  "conc hosts s = (wf hosts s \<and> conc_pc (pc s) s)"

text \<open>The Worker process that \<^verbatim>\<open>starter_func\<close> builds for a host, just started.\<close>

definition fresh :: "local_env \<Rightarrow> operation \<Rightarrow> string \<Rightarrow> process" where
  "fresh env starter h = \<lparr>host = h, conf = lookup env h, oper = starter, status = Running\<rparr>"

section \<open>Sample inputs\<close>

text \<open>
  Exceptions as Python 3 raises them (no attribute \<^verbatim>\<open>message\<close>), and one that carries
  the attribute.
\<close>

definition io_error :: exc where
  "io_error = \<lparr>cls = IOError, str_of = ''No such file or directory'', message = None\<rparr>"

definition auth_failed :: exc where
  "auth_failed = \<lparr>cls = AuthException, str_of = ''Authentication failed.'', message = None\<rparr>"

definition invalid_key :: exc where
  "invalid_key = \<lparr>cls = SSHException, str_of = ''Invalid key'', message = Some ''Invalid key''\<rparr>"

definition decode_error :: exc where
  "decode_error =
     \<lparr>cls = Other_exception, str_of = ''codec cannot decode byte'', message = None\<rparr>"

text \<open>
  A remote side that accepts the connection and answers every command with the given
  output and error lines, the command itself exiting with status 0; and one whose
  \<^verbatim>\<open>connect\<close> raises.
\<close>

definition answering :: "string list \<Rightarrow> string list \<Rightarrow> remote" where
  "answering out err =
     \<lparr>client_setup = None, client_close = None,
      int_of = (\<lambda>s. Inr 22), connect = (\<lambda>h p u. None),
      exec_command = (\<lambda>c. Inr (list_stream [], list_stream out, list_stream err)),
      exit_status = 0, open_sftp = None, sftp_put = (\<lambda>a b. None), sftp_close = None\<rparr>"

definition refusing :: "exc \<Rightarrow> remote" where
  "refusing e = (answering [] [])\<lparr>connect := (\<lambda>h p u. Some e)\<rparr>"

text \<open>
  A remote side whose command writes a line to its error stream and bytes to its output
  that cannot be decoded: the iteration over \<^verbatim>\<open>stdout\<close> raises at once.
\<close>

definition garbled :: remote where
  "garbled =
     (answering [] [])\<lparr>exec_command :=
        (\<lambda>c. Inr (list_stream [], \<lparr>lines = [], fails = Some decode_error\<rparr>,
                   list_stream [''warning'']))\<rparr>"

text \<open>
  A local machine with the given outcome of loading the store, no local file, a
  configuration file that parses and is empty, and a pattern parser that rejects every
  pattern it is asked about.
\<close>

definition store_env :: "exc + string list \<Rightarrow> local_env" where
  "store_env st =
     \<lparr>load_host_keys = st, re_parse = (\<lambda>p. None), isfile = (\<lambda>f. False),
      ssh_config = Inr (\<lambda>h. Map.empty), remote_of = (\<lambda>h. answering [''up''] [])\<rparr>"



definition throttled_run :: "event list" where
  "throttled_run = [Orch, Orch, Worker_exit 0, Orch, Orch, Orch]"

text \<open>A Worker process with a given host and status.\<close>

definition worker :: "string \<Rightarrow> status \<Rightarrow> process" where
  "worker h st = \<lparr>host = h, conf = Map.empty, oper = SSHExecutor ''uptime'', status = st\<rparr>"

section \<open>The Worker: exit code\<close>

lemma exitcode_emit: "exitcode (emit l s) = exitcode s"
  by (simp add: emit_def)

lemma stderr_loop_exitcode:
  "exitcode (stderr_loop h ls s) = (if ls = [] then exitcode s else 1)"
proof (induction ls arbitrary: s)
  case Nil
  show ?case by simp
next
  case (Cons l ls)
  show ?case by (simp add: Cons.IH)
qed

lemma stdout_loop_exitcode: "exitcode (stdout_loop h ls s) = exitcode s"
  by (induction ls arbitrary: s) (simp_all add: exitcode_emit)

lemma except_clauses_keeps_failure:
  "exitcode (snd bs) = 1 \<Longrightarrow> exitcode (snd (except_clauses h bs)) = 1"
  by (cases bs) (simp add: except_clauses_def exitcode_emit split: option.splits)

lemma exec_result:
  "client_setup r = None \<Longrightarrow> client_close r = None \<Longrightarrow>
   fst (exec r h cfg opn) =
     Inr (exitcode (snd (except_clauses h (try_body r h cfg opn initial_wstate))))"
  by (simp add: exec_def finally_clause_def)

lemma exec_raises:
  "client_setup r = Some e \<Longrightarrow> fst (exec r h cfg opn) = Inl e"
  "client_setup r = None \<Longrightarrow> client_close r = Some e \<Longrightarrow> fst (exec r h cfg opn) = Inl e"
  by (simp_all add: exec_def finally_clause_def)

lemma run_cases:
  "run r h cfg opn =
     (if client_setup r = None \<and> client_close r = None
      then exitcode (snd (except_clauses h (try_body r h cfg opn initial_wstate))) else 1)"
  by (simp add: run_def exec_def finally_clause_def split: option.splits)

lemma except_clauses_handled:
  "fst bs = Some e \<Longrightarrow> handled e \<Longrightarrow> exitcode (snd (except_clauses h bs)) = 1"
  by (cases bs) (auto simp: except_clauses_def handled_def exitcode_emit)

section \<open>Patterns: matching and languages\<close>

lemma kleene_Cons:
  "c # w \<in> kleene A \<longleftrightarrow> (\<exists>u v. w = u @ v \<and> c # u \<in> A \<and> v \<in> kleene A)"
proof
  assume "c # w \<in> kleene A"
  then show "\<exists>u v. w = u @ v \<and> c # u \<in> A \<and> v \<in> kleene A"
  proof (induction "c # w" rule: kleene.induct)
    case (kleene_more u v)
    show ?case
    proof (cases u)
      case Nil
      with kleene_more show ?thesis by simp
    next
      case (Cons d u')
      with kleene_more.hyps show ?thesis by auto
    qed
  qed
next
  assume "\<exists>u v. w = u @ v \<and> c # u \<in> A \<and> v \<in> kleene A"
  then obtain u v where "w = u @ v" "c # u \<in> A" "v \<in> kleene A" by blast
  then show "c # w \<in> kleene A"
    using kleene_more [of "c # u" A v] by simp
qed

lemma nullable_lang: "nullable r \<longleftrightarrow> [] \<in> lang r"
  by (induction r) (auto intro: kleene_empty)

lemma lang_deriv: "w \<in> lang (deriv c r) \<longleftrightarrow> c # w \<in> lang r"
proof (induction r arbitrary: w)
  case (Seq r q)
  show ?case
    by (auto simp: Seq.IH nullable_lang Cons_eq_append_conv)
next
  case (Star r)
  show ?case
    by (auto simp: Star.IH kleene_Cons)
qed auto

lemma fullmatch_lang: "fullmatch r w \<longleftrightarrow> w \<in> lang r"
  by (induction w arbitrary: r) (simp_all add: nullable_lang lang_deriv)

lemma re_match_prefix: "re_match r s \<longleftrightarrow> (\<exists>p. prefix p s \<and> p \<in> lang r)"
proof (induction s arbitrary: r)
  case Nil
  show ?case by (simp add: nullable_lang)
next
  case (Cons c cs)
  show ?case
    by (auto simp: Cons.IH nullable_lang lang_deriv prefix_Cons)
qed

lemma lang_literal: "lang (literal s) = {s}"
  by (induction s) auto

lemma match_loop_filter: "match_loop rex keys hosts = hosts @ filter (re_match rex) keys"
  by (induction keys arbitrary: hosts) simp_all

section \<open>The Orchestrator: bookkeeping\<close>

lemma map_host_update:
  "host q = host (cs ! i) \<Longrightarrow> map host (cs[i := q]) = map host cs"
  by (cases "i < length cs") (simp_all add: map_update list_update_same_conv list_update_beyond)

lemma stop_host: "host (stop p) = host p"
  by (simp add: stop_def)

lemma stop_all_hosts: "map host (stop_all is cs) = map host cs"
  by (induction "is" arbitrary: cs) (simp_all add: map_host_update stop_host)

lemma length_stop_all: "length (stop_all is cs) = length cs"
  by (induction "is" arbitrary: cs) simp_all

lemma worker_exit_fields:
  "pc (worker_exit env i s) = pc s" "processes (worker_exit env i s) = processes s"
  "actions (worker_exit env i s) = actions s"
  "map host (children (worker_exit env i s)) = map host (children s)"
  "length (children (worker_exit env i s)) = length (children s)"
  by (simp_all add: worker_exit_def Let_def map_host_update)

lemma reaped_fields:
  "pc (reaped i s) = pc s" "processes (reaped i s) = processes s"
  "actions (reaped i s) = actions s"
  "map host (children (reaped i s)) = map host (children s)"
  "length (children (reaped i s)) = length (children s)"
  by (simp_all add: reaped_def map_host_update)

lemma wf_pc_cong:
  "pc s' = pc s \<Longrightarrow> processes s' = processes s \<Longrightarrow> map host (children s') = map host (children s)
   \<Longrightarrow> length (children s') = length (children s) \<Longrightarrow> wf_pc hosts p s' = wf_pc hosts p s"
  by (cases p) simp_all

lemma wf_orch: "wf hosts s \<Longrightarrow> wf hosts (orch env interval starter (pc s) s)"
proof (cases "pc s")
  case (For_loop hs)
  then show "wf hosts s \<Longrightarrow> ?thesis"
    by (cases hs) (auto simp: wf_def Let_def)
qed (auto simp: wf_def)

lemma wf_interrupt: "wf hosts s \<Longrightarrow> wf hosts (interrupt (pc s) s)"
  by (cases "pc s") (auto simp: wf_def stop_all_hosts length_stop_all)

lemma wf_step: "wf hosts s \<Longrightarrow> wf hosts (step env interval starter ev s)"
proof (cases ev)
  case Orch
  then show "wf hosts s \<Longrightarrow> ?thesis" by (simp add: wf_orch)
next
  case Interrupt
  then show "wf hosts s \<Longrightarrow> ?thesis" by (simp add: wf_interrupt)
next
  case (Worker_exit i)
  then show "wf hosts s \<Longrightarrow> ?thesis"
    using wf_pc_cong [of "worker_exit env i s" s hosts "pc s"]
    by (simp add: wf_def worker_exit_fields)
next
  case (Reaped i)
  then show "wf hosts s \<Longrightarrow> ?thesis"
    using wf_pc_cong [of "reaped i s" s hosts "pc s"]
    by (simp add: wf_def reaped_fields)
qed


lemma wf_initial: "wf hosts (initial hosts)" "wf hosts ((initial hosts)\<lparr>pc := Raised e\<rparr>)"
  by (simp_all add: wf_def initial_def)





section \<open>The Orchestrator with a positive interval\<close>

lemma script_append: "script t (xs @ ys) = script t xs @ script t ys"
  by (simp add: script_def)

lemma script_Cons: "script t (x # xs) = Started x # Joined x # Slept t # script t xs"
  by (simp add: script_def)

lemma script_Nil: "script t [] = []"
  by (simp add: script_def)

lemma take_nth_snoc: "length hs = Suc i \<Longrightarrow> take i hs @ [hs ! i] = hs"
  by (simp flip: take_Suc_conv_app_nth)

lemma script_snoc: "script t (xs @ [x]) = script t xs @ [Started x, Joined x, Slept t]"
  by (simp add: script_def)

lemma script_last:
  assumes "length hs = Suc i"
  shows "script t hs = script t (take i hs) @ [Started (hs ! i), Joined (hs ! i), Slept t]"
proof -
  have "script t hs = script t (take i hs @ [hs ! i])"
    by (simp only: take_nth_snoc [OF assms])
  then show ?thesis by (simp only: script_snoc)
qed

lemma ended_update:
  "ended q \<Longrightarrow> list_all ended (take n cs) \<Longrightarrow> list_all ended (take n (cs[j := q]))"
proof -
  assume q: "ended q" and all: "list_all ended (take n cs)"
  have "set (take n (cs[j := q])) \<subseteq> insert q (set (take n cs))"
    by (cases "j < n") (simp_all add: take_update_swap set_update_subset_insert)
  with q all show ?thesis
    by (auto simp: list_all_iff)
qed

lemma worker_exit_ended:
  "list_all ended (take n (children s)) \<Longrightarrow> list_all ended (take n (children (worker_exit env j s)))"
  by (simp add: worker_exit_def Let_def ended_update ended_def alive_def)

lemma reaped_ended:
  "list_all ended (take n (children s)) \<Longrightarrow> list_all ended (take n (children (reaped j s)))"
  by (simp add: reaped_def ended_update ended_def alive_def)

lemma thr_pc_worker:
  assumes "pc s' = pc s" "actions s' = actions s" "map host (children s') = map host (children s)"
    and "length (children s') = length (children s)"
    and "\<And>n. list_all ended (take n (children s)) \<Longrightarrow> list_all ended (take n (children s'))"
    and "thr_pc t hosts p s"
  shows "thr_pc t hosts p s'"
proof -
  have full: "list_all ended (children s) \<Longrightarrow> list_all ended (children s')"
    using assms(5) [of "length (children s)"] assms(4) by simp
  show ?thesis
    using assms(1-4,6) assms(5) full by (cases p) simp_all
qed

lemma all_ended_not_active: "list_all ended cs \<Longrightarrow> filter alive cs = []"
  by (induction cs) (simp_all add: ended_def)

lemma thr_orch:
  assumes "0 < t" and "thr t hosts s"
  shows "thr_pc t hosts (pc (orch env t starter (pc s) s)) (orch env t starter (pc s) s)"
proof (cases "pc s")
  case (For_loop hs)
  with assms show ?thesis
    by (cases hs) (auto simp: thr_def wf_def Let_def nth_append)
next
  case (Joining i hs)
  with assms have len: "length (children s) = Suc i" by (simp add: thr_def wf_def)
  then have split: "children s = take i (children s) @ [children s ! i]"
    by (simp add: take_nth_snoc)
  have "list_all ended (children s)"
    if "\<not> alive (children s ! i)" and "list_all ended (take i (children s))"
    using that by (subst split) (simp add: ended_def)
  with assms Joining len show ?thesis
    by (auto simp: thr_def)
next
  case (Sleeping i hs)
  with assms have len: "length (children s) = Suc i" by (simp add: thr_def wf_def)
  then have "script t (map host (children s)) =
      script t (take i (map host (children s))) @
        [Started (map host (children s) ! i), Joined (map host (children s) ! i), Slept t]"
    by (simp add: script_last)
  with assms Sleeping len show ?thesis
    by (simp add: thr_def)
next
  case While_test
  with assms show ?thesis
    by (auto simp: thr_def active_children_def all_ended_not_active)
qed (use assms in \<open>auto simp: thr_def\<close>)


lemma script_prefix:
  assumes "length hs = Suc i"
  shows "prefix (script t (take i hs) @ [Started (hs ! i)]) (script t (hs @ rest))"
    and "prefix (script t (take i hs) @ [Started (hs ! i), Joined (hs ! i)]) (script t (hs @ rest))"
  by (simp_all add: script_append script_last [OF assms])

lemma thr_interrupt:
  assumes "thr t hosts s"
  shows "thr_pc t hosts (pc (interrupt (pc s) s)) (interrupt (pc s) s)"
proof (cases "pc s")
  case (For_loop hs)
  with assms have "list_all ended (children s)" "actions s = script t (map host (children s))"
    "hosts = map host (children s) @ hs"
    by (auto simp: thr_def wf_def)
  with For_loop show ?thesis
    by (auto simp: script_append list_all_iff dest: in_set_takeD)
next
  case While_test
  with assms have "list_all ended (children s)" "actions s = script t (map host (children s))"
    "hosts = map host (children s)"
    by (auto simp: thr_def wf_def)
  with While_test show ?thesis
    by (auto simp: list_all_iff dest: in_set_takeD)
next
  case (Joining i hs)
  with assms have "length (map host (children s)) = Suc i" "hosts = map host (children s) @ hs"
    by (auto simp: thr_def wf_def)
  with assms Joining script_prefix(1) [of "map host (children s)" i t hs] show ?thesis
    by (simp add: thr_def)
next
  case (Sleeping i hs)
  with assms have "length (map host (children s)) = Suc i" "hosts = map host (children s) @ hs"
    by (auto simp: thr_def wf_def)
  with assms Sleeping script_prefix(2) [of "map host (children s)" i t hs] show ?thesis
    by (auto simp: thr_def list_all_iff dest: in_set_takeD)
qed (use assms in \<open>auto simp: thr_def\<close>)

lemma thr_step:
  assumes "0 < t" and "thr t hosts s"
  shows "thr t hosts (step env t starter ev s)"
proof -
  have "wf hosts (step env t starter ev s)"
    using assms(2) by (simp add: thr_def wf_step)
  moreover have "thr_pc t hosts (pc (step env t starter ev s)) (step env t starter ev s)"
  proof (cases ev)
    case Orch
    with assms show ?thesis by (simp add: thr_orch)
  next
    case Interrupt
    with assms show ?thesis by (simp add: thr_interrupt)
  next
    case (Worker_exit i)
    with assms(2) show ?thesis
      using thr_pc_worker [of "worker_exit env i s" s t hosts "pc s"]
      by (simp add: thr_def worker_exit_fields worker_exit_ended)
  next
    case (Reaped i)
    with assms(2) show ?thesis
      using thr_pc_worker [of "reaped i s" s t hosts "pc s"]
      by (simp add: thr_def reaped_fields reaped_ended)
  qed
  ultimately show ?thesis by (simp add: thr_def)
qed

lemma thr_run_events:
  "0 < t \<Longrightarrow> thr t hosts s \<Longrightarrow> thr t hosts (run_events env t starter evs s)"
  by (induction evs arbitrary: s) (simp_all add: thr_step)

lemma thr_initial:
  "thr t hosts (initial hosts)" "thr t hosts ((initial hosts)\<lparr>pc := Raised e\<rparr>)"
  by (simp_all add: thr_def wf_initial) (simp_all add: initial_def script_Nil)

lemma thr_start_procs: "0 < t \<Longrightarrow> thr t hosts (start_procs env t hosts starter evs)"
  by (cases "ssh_config env") (simp_all add: start_procs_def thr_initial thr_run_events)

lemma thr_previous_ended:
  assumes "thr t hosts s" and "Suc i < length (children s)"
  shows "ended (children s ! i)"
proof (cases "pc s")
  case (Joining j hs)
  with assms have "list_all ended (take j (children s))" "i < j"
    by (auto simp: thr_def wf_def)
  then show ?thesis
    using assms(2) by (auto simp: list_all_length dest!: spec [of _ i])
next
  case (Raised e)
  with assms have "list_all ended (take (length (children s) - 1) (children s))"
    by (simp add: thr_def)
  moreover from assms(2) have "i < length (children s) - 1" by simp
  ultimately show ?thesis
    using assms(2) by (auto simp: list_all_length dest!: spec [of _ i])
qed (use assms in \<open>auto simp: thr_def list_all_length\<close>)

lemma thr_actions_prefix:
  assumes "thr t hosts s"
  shows "prefix (actions s) (script t hosts)"
proof (cases "pc s")
  case (Joining i hs)
  with assms have "length (map host (children s)) = Suc i" "hosts = map host (children s) @ hs"
    by (auto simp: thr_def wf_def)
  with assms Joining script_prefix(1) [of "map host (children s)" i t hs] show ?thesis
    by (simp add: thr_def)
next
  case (Sleeping i hs)
  with assms have "length (map host (children s)) = Suc i" "hosts = map host (children s) @ hs"
    by (auto simp: thr_def wf_def)
  with assms Sleeping script_prefix(2) [of "map host (children s)" i t hs] show ?thesis
    by (simp add: thr_def)
next
  case (For_loop hs)
  with assms show ?thesis by (auto simp: thr_def wf_def script_append)
qed (use assms in \<open>auto simp: thr_def wf_def\<close>)

lemma ended_exited: "ended p \<longleftrightarrow> (\<exists>c. status p = Exited c)"
  by (cases "status p") (simp_all add: ended_def alive_def)

section \<open>The Orchestrator without a positive interval\<close>

lemma conc_pc_fields:
  "pc s' = pc s \<Longrightarrow> actions s' = actions s \<Longrightarrow> map host (children s') = map host (children s)
   \<Longrightarrow> conc_pc p s' = conc_pc p s"
  by (cases p) simp_all

lemma conc_orch:
  assumes "\<not> 0 < t" and "conc hosts s"
  shows "conc_pc (pc (orch env t starter (pc s) s)) (orch env t starter (pc s) s)"
proof (cases "pc s")
  case (For_loop hs)
  with assms show ?thesis
    by (cases hs) (simp_all add: conc_def Let_def)
qed (use assms in \<open>simp_all add: conc_def\<close>)

lemma conc_interrupt:
  assumes "conc hosts s"
  shows "conc_pc (pc (interrupt (pc s) s)) (interrupt (pc s) s)"
  using assms by (cases "pc s") (simp_all add: conc_def stop_all_hosts)

lemma conc_step:
  assumes "\<not> 0 < t" and "conc hosts s"
  shows "conc hosts (step env t starter ev s)"
proof -
  have "wf hosts (step env t starter ev s)"
    using assms(2) by (simp add: conc_def wf_step)
  moreover have "conc_pc (pc (step env t starter ev s)) (step env t starter ev s)"
  proof (cases ev)
    case Orch
    with assms show ?thesis by (simp add: conc_orch)
  next
    case Interrupt
    with assms show ?thesis by (simp add: conc_interrupt)
  next
    case (Worker_exit i)
    with assms(2) show ?thesis
      using conc_pc_fields [of "worker_exit env i s" s "pc s"]
      by (simp add: conc_def worker_exit_fields)
  next
    case (Reaped i)
    with assms(2) show ?thesis
      using conc_pc_fields [of "reaped i s" s "pc s"]
      by (simp add: conc_def reaped_fields)
  qed
  ultimately show ?thesis by (simp add: conc_def)
qed

lemma conc_run_events:
  "\<not> 0 < t \<Longrightarrow> conc hosts s \<Longrightarrow> conc hosts (run_events env t starter evs s)"
  by (induction evs arbitrary: s) (simp_all add: conc_step)

lemma conc_initial:
  "conc hosts (initial hosts)" "conc hosts ((initial hosts)\<lparr>pc := Raised e\<rparr>)"
  by (simp_all add: conc_def wf_initial) (simp_all add: initial_def)

lemma conc_start_procs: "\<not> 0 < t \<Longrightarrow> conc hosts (start_procs env t hosts starter evs)"
  by (cases "ssh_config env") (simp_all add: start_procs_def conc_initial conc_run_events)

lemma conc_actions_prefix:
  assumes "conc hosts s"
  shows "prefix (actions s) (map Started hosts)"
proof (cases "pc s")
  case (Raised e)
  with assms have "prefix (map host (children s)) hosts"
    and "actions s = map Started (map host (children s))"
    by (simp_all add: conc_def wf_def)
  then show ?thesis
    by (simp only: map_mono_prefix)
qed (use assms in \<open>auto simp: conc_def wf_def\<close>)

lemma conc_never_waits:
  assumes "conc hosts s"
  shows "pc s \<noteq> Joining i hs" and "pc s \<noteq> Sleeping i hs"
  using assms by (auto simp: conc_def)

lemma wf_draining:
  assumes "wf hosts s" and "pc s = While_test \<or> pc s = Drain_sleep \<or> pc s = Returned"
  shows "map host (children s) = hosts"
  using assms by (auto simp: wf_def)

lemma launch_all:
  assumes "\<not> 0 < t" and "pc s = For_loop hs"
  shows "run_events env t starter (replicate (length hs) Orch) s =
         s\<lparr>children := children s @ map (fresh env starter) hs,
           processes := processes s @ [length (children s)..<length (children s) + length hs],
           pc := For_loop [],
           actions := actions s @ map Started hs\<rparr>"
  using assms
proof (induction hs arbitrary: s)
  case Nil
  then show ?case by simp
next
  case (Cons h hs)
  let ?s1 = "orch env t starter (pc s) s"
  have s1: "?s1 = s\<lparr>children := children s @ [fresh env starter h],
                     processes := processes s @ [length (children s)],
                     pc := For_loop hs, actions := actions s @ [Started h]\<rparr>"
    using Cons.prems by (simp add: Let_def fresh_def)
  have "run_events env t starter (replicate (length hs) Orch) ?s1 =
        ?s1\<lparr>children := children ?s1 @ map (fresh env starter) hs,
           processes := processes ?s1 @ [length (children ?s1)..<length (children ?s1) + length hs],
           pc := For_loop [],
           actions := actions ?s1 @ map Started hs\<rparr>"
    by (rule Cons.IH [OF Cons.prems(1)]) (simp add: s1)
  moreover have "[n..<Suc (n + k)] = n # [Suc n..<Suc (n + k)]" for n k :: nat
    by (simp add: upt_conv_Cons)
  ultimately show ?case
    by (simp add: s1 del: upt_Suc)
qed

lemma loop_launches_all:
  assumes "\<not> 0 < t"
  shows "run_events env t starter (replicate (Suc (length hosts)) Orch) (initial hosts) =
         \<lparr>children = map (fresh env starter) hosts, processes = [0..<length hosts],
          pc = While_test, actions = map Started hosts\<rparr>"
proof -
  have "replicate (Suc (length hosts)) Orch = replicate (length hosts) Orch @ [Orch]"
    by (simp add: replicate_append_same)
  moreover have run_append: "run_events env t starter (xs @ ys) s =
      run_events env t starter ys (run_events env t starter xs s)" for xs ys s
    by (induction xs arbitrary: s) simp_all
  ultimately show ?thesis
    using launch_all [OF assms, of "initial hosts" hosts env starter]
    by (simp add: initial_def)
qed

lemma all_launched_all_running:
  assumes "\<not> 0 < t" and "ssh_config env = Inr l"
  shows "start_procs env t hosts starter (replicate (Suc (length hosts)) Orch) =
         \<lparr>children = map (fresh env starter) hosts, processes = [0..<length hosts],
          pc = While_test, actions = map Started hosts\<rparr>"
  using loop_launches_all [OF assms(1)] assms(2) by (simp add: start_procs_def)

section \<open>The Orchestrator on an empty list of hosts\<close>





section \<open>Claims about the Worker\<close>

lemma exec_exit_status: "exec (r\<lparr>exit_status := n\<rparr>) h cfg opn = exec r h cfg opn"
proof -
  have c: "do_connect (r\<lparr>exit_status := n\<rparr>) cfg = do_connect r cfg"
    by (simp add: do_connect_def split: option.splits sum.splits)
  have x: "sub_exec_command (r\<lparr>exit_status := n\<rparr>) h opn = sub_exec_command r h opn"
    by (cases opn) (simp_all split: option.splits)
  have "try_body (r\<lparr>exit_status := n\<rparr>) h cfg opn s = try_body r h cfg opn s" for s
    unfolding try_body_def by (simp only: c x)
  then show ?thesis
    by (simp add: exec_def finally_clause_def split: option.splits)
qed

text \<open>
  Claim C1, as stated: every Worker whose remote operation yields a non-empty error
  stream ends with exit code 1. Here the error stream holds a line, but the iteration
  over \<^verbatim>\<open>stdout\<close> raises an exception that neither clause names: the loop over
  \<^verbatim>\<open>stderr\<close> is never reached, the \<^verbatim>\<open>return\<close> of the \<^verbatim>\<open>finally\<close> clause discards
  the exception, and the Worker ends with 0 and counts as a success.
\<close>

theorem unread_stderr_counted_as_success:
  "sub_exec_command garbled ''web1'' (SSHExecutor ''uptime'') =
     Inr (list_stream [], \<lparr>lines = [], fails = Some decode_error\<rparr>, list_stream [''warning''])
   \<and> lines (list_stream [''warning'']) \<noteq> []
   \<and> exec garbled ''web1'' Map.empty (SSHExecutor ''uptime'') =
       (Inr 0, \<lparr>exitcode = 0, printed = [], closed = True\<rparr>)
   \<and> succeeded \<lparr>host = ''web1'', conf = Map.empty, oper = SSHExecutor ''uptime'',
         status = Exited (run garbled ''web1'' Map.empty (SSHExecutor ''uptime''))\<rparr>"
  by (simp add: garbled_def answering_def decode_error_def list_stream_def do_connect_def
      exec_def try_body_def except_clauses_def finally_clause_def initial_wstate_def
      is_IOError_def is_ssh_error_def run_def succeeded_def proc_exitcode_def)

text \<open>
  Claim C1, amended. A Worker whose remote operation yields a non-empty error stream
  ends with exit code 1 and is not a success, whatever the exit status of the remote
  command (also when it is 0), provided the iteration over \<^verbatim>\<open>stdout\<close> does not end in
  an exception that leaves the \<^verbatim>\<open>try\<close> statement unhandled: it comes to its end, so
  that the loop over \<^verbatim>\<open>stderr\<close> receives its line, or it raises an exception that one
  of the two clauses handles. When the calls around the \<^verbatim>\<open>try\<close> statement return, 1 is
  the value that \<^verbatim>\<open>_exec\<close> returns.
\<close>

theorem stderr_line_is_failure:
  assumes "do_connect r cfg = None"
    and "sub_exec_command r h opn = Inr (stdin, stdout, stderr)"
    and "lines stderr \<noteq> []"
    and "fails stdout = None \<or> (\<exists>e. fails stdout = Some e \<and> handled e)"
  shows "run r h cfg opn = 1
         \<and> run (r\<lparr>exit_status := n\<rparr>) h cfg opn = 1
         \<and> \<not> succeeded \<lparr>host = h, conf = cfg, oper = opn, status = Exited (run r h cfg opn)\<rparr>
         \<and> (client_setup r = None \<and> client_close r = None \<longrightarrow>
               fst (exec r h cfg opn) = Inr 1)"
proof -
  have body: "exitcode (snd (except_clauses h (try_body r h cfg opn initial_wstate))) = 1"
  proof (cases "fails stdout")
    case None
    with assms(1-3) have "exitcode (snd (try_body r h cfg opn initial_wstate)) = 1"
      by (simp add: try_body_def stderr_loop_exitcode)
    then show ?thesis
      by (rule except_clauses_keeps_failure)
  next
    case (Some e)
    with assms(4) have "handled e" by simp
    moreover from Some assms(1,2) have "fst (try_body r h cfg opn initial_wstate) = Some e"
      by (simp add: try_body_def Let_def)
    ultimately show ?thesis
      by (simp add: except_clauses_handled)
  qed
  then have "run r h cfg opn = 1"
    by (simp add: run_cases)
  moreover have "run (r\<lparr>exit_status := n\<rparr>) h cfg opn = run r h cfg opn"
    by (simp add: run_def exec_exit_status)
  moreover have "fst (exec r h cfg opn) = Inr 1"
    if "client_setup r = None \<and> client_close r = None"
    using that body by (simp add: exec_result)
  ultimately show ?thesis
    by (simp add: succeeded_def proc_exitcode_def)
qed

text \<open>
  The remote side accepts, prints one line on each stream and the command exits with
  status 0: the Worker ends with 1.
\<close>

theorem stderr_line_is_failure_witness:
  "exit_status (answering [''ok''] [''warning'']) = 0
   \<and> lines (list_stream [''warning'']) \<noteq> []
   \<and> run (answering [''ok''] [''warning'']) ''web1'' Map.empty (SSHExecutor ''uptime'') = 1
   \<and> fst (exec (answering [''ok''] [''warning'']) ''web1'' Map.empty (SSHExecutor ''uptime''))
       = Inr 1
   \<and> \<not> succeeded \<lparr>host = ''web1'', conf = Map.empty, oper = SSHExecutor ''uptime'',
         status = Exited (run (answering [''ok''] [''warning'']) ''web1'' Map.empty (SSHExecutor ''uptime''))\<rparr>"
proof -
  let ?r = "answering [''ok''] [''warning'']"
  have c: "do_connect ?r Map.empty = None"
    by (simp add: answering_def do_connect_def)
  have x: "sub_exec_command ?r ''web1'' (SSHExecutor ''uptime'') =
      Inr (list_stream [], list_stream [''ok''], list_stream [''warning''])"
    by (simp add: answering_def)
  have l: "lines (list_stream [''warning'']) \<noteq> []"
    by (simp add: list_stream_def)
  have f: "fails (list_stream [''ok'']) = None
      \<or> (\<exists>e. fails (list_stream [''ok'']) = Some e \<and> handled e)"
    by (simp add: list_stream_def)
  have e: "exit_status ?r = 0" and k: "client_setup ?r = None \<and> client_close ?r = None"
    by (simp_all add: answering_def)
  from e k l stderr_line_is_failure [OF c x l f, where n = 0] show ?thesis
    by auto
qed

text \<open>
  An \<^verbatim>\<open>IOError\<close> in flight is handled by the first clause: one red line that starts
  with the host, and exit code 1.
\<close>

lemma io_error_reported:
  assumes "fst bs = Some e" and "is_IOError e"
  shows "except_clauses h bs =
           (None, (snd bs)\<lparr>printed := printed (snd bs) @
                     [Print [[Colored (host_line h (str_of e)) (Some ''red'') []]]],
                   exitcode := 1\<rparr>)"
    and "host_prefixed h (Print [[Colored (host_line h (str_of e)) (Some ''red'') []]])"
  using assms by (simp_all add: except_clauses_def emit_def host_line_def)

text \<open>
  Claim C2. A connection error should give one error line that starts with the host, and
  exit status 1. Here \<^verbatim>\<open>connect\<close> raises an authentication error that has no attribute
  \<^verbatim>\<open>message\<close>: the second clause raises while it builds its line, the \<^verbatim>\<open>return\<close>
  of the \<^verbatim>\<open>finally\<close> clause discards that exception, nothing is printed, the exit code
  is 0 and the host counts as a success.
\<close>

theorem connection_error_counted_as_success:
  "is_ssh_error auth_failed
   \<and> do_connect (refusing auth_failed) Map.empty = Some auth_failed
   \<and> exec (refusing auth_failed) ''web1'' Map.empty (SSHExecutor ''uptime'') =
       (Inr 0, \<lparr>exitcode = 0, printed = [], closed = True\<rparr>)
   \<and> succeeded \<lparr>host = ''web1'', conf = Map.empty, oper = SSHExecutor ''uptime'',
         status = Exited (run (refusing auth_failed) ''web1'' Map.empty (SSHExecutor ''uptime''))\<rparr>"
  by (simp add: is_ssh_error_def auth_failed_def refusing_def answering_def do_connect_def
      exec_def try_body_def except_clauses_def finally_clause_def initial_wstate_def
      is_IOError_def run_def succeeded_def proc_exitcode_def)

text \<open>
  Claim C9, as stated: \<^verbatim>\<open>_exec\<close> never lets an exception out. The calls of lines 45 to
  47 stand before the \<^verbatim>\<open>try\<close>, and \<^verbatim>\<open>client.close()\<close> stands before the
  \<^verbatim>\<open>return\<close> of the \<^verbatim>\<open>finally\<close> clause: an exception raised by either leaves
  \<^verbatim>\<open>_exec\<close>.
\<close>

theorem exec_raises_outside_try:
  "fst (exec ((answering [] [])\<lparr>client_setup := Some invalid_key\<rparr>) ''web1'' Map.empty
        (SSHExecutor ''uptime'')) = Inl invalid_key
   \<and> fst (exec ((answering [] [])\<lparr>client_close := Some io_error\<rparr>) ''web1'' Map.empty
        (SSHExecutor ''uptime'')) = Inl io_error"
  by (simp add: exec_def finally_clause_def answering_def)

text \<open>
  Claim C9, amended. In every execution in which the calls before the \<^verbatim>\<open>try\<close> and
  \<^verbatim>\<open>client.close()\<close> return, \<^verbatim>\<open>_exec\<close> returns an integer and lets no exception
  out: the \<^verbatim>\<open>return\<close> of the \<^verbatim>\<open>finally\<close> clause discards whatever exception is in
  flight, also one raised inside an \<^verbatim>\<open>except\<close> clause, and the value returned is the
  one \<^verbatim>\<open>exitcode\<close> holds at that moment. That value can be 0: when \<^verbatim>\<open>connect\<close> raises
  an SSH error without the attribute \<^verbatim>\<open>message\<close>, the handler raises, the exit code is
  0, and the host is recorded as a success. An exception raised by the calls before the
  \<^verbatim>\<open>try\<close> or by \<^verbatim>\<open>client.close()\<close> leaves \<^verbatim>\<open>_exec\<close>.
\<close>

theorem exec_returns_exitcode:
  "(client_setup r = None \<and> client_close r = None \<longrightarrow>
      fst (exec r h cfg opn) =
        Inr (exitcode (snd (except_clauses h (try_body r h cfg opn initial_wstate))))
      \<and> fst (finally_clause r (pending, s)) = Inr (exitcode s))
   \<and> (client_setup r = None \<and> client_close r = None
        \<and> is_ssh_error e \<and> message e = None \<and> do_connect r cfg = Some e \<longrightarrow>
        fst (except_clauses h (try_body r h cfg opn initial_wstate)) = Some attribute_error
        \<and> fst (exec r h cfg opn) = Inr 0
        \<and> succeeded \<lparr>host = h, conf = cfg, oper = opn, status = Exited (run r h cfg opn)\<rparr>)
   \<and> (client_setup r = Some x \<longrightarrow> fst (exec r h cfg opn) = Inl x)
   \<and> (client_setup r = None \<and> client_close r = Some x \<longrightarrow> fst (exec r h cfg opn) = Inl x)"
proof (intro conjI impI)
  assume "client_setup r = None \<and> client_close r = None"
  then show "fst (exec r h cfg opn) =
      Inr (exitcode (snd (except_clauses h (try_body r h cfg opn initial_wstate))))"
    and "fst (finally_clause r (pending, s)) = Inr (exitcode s)"
    by (simp_all add: exec_result finally_clause_def)
next
  assume a: "client_setup r = None \<and> client_close r = None
      \<and> is_ssh_error e \<and> message e = None \<and> do_connect r cfg = Some e"
  then have "\<not> is_IOError e"
    by (auto simp: is_ssh_error_def is_IOError_def)
  with a have body: "except_clauses h (try_body r h cfg opn initial_wstate) =
      (Some attribute_error, initial_wstate)"
    by (simp add: try_body_def except_clauses_def)
  then show "fst (except_clauses h (try_body r h cfg opn initial_wstate)) = Some attribute_error"
    by simp
  from a body show "fst (exec r h cfg opn) = Inr 0"
    by (simp add: exec_result initial_wstate_def)
  from a body show "succeeded \<lparr>host = h, conf = cfg, oper = opn,
      status = Exited (run r h cfg opn)\<rparr>"
    by (simp add: run_cases succeeded_def proc_exitcode_def initial_wstate_def)
next
  assume "client_setup r = Some x"
  then show "fst (exec r h cfg opn) = Inl x"
    by (rule exec_raises(1))
next
  assume "client_setup r = None \<and> client_close r = Some x"
  then show "fst (exec r h cfg opn) = Inl x"
    by (simp add: exec_raises(2))
qed

text \<open>The authentication error of Python 3, at a concrete host.\<close>

theorem exec_returns_exitcode_witness:
  "client_setup (refusing auth_failed) = None \<and> client_close (refusing auth_failed) = None
   \<and> is_ssh_error auth_failed \<and> message auth_failed = None
   \<and> fst (except_clauses ''web1''
            (try_body (refusing auth_failed) ''web1'' Map.empty (SSHExecutor ''uptime'')
               initial_wstate)) = Some attribute_error
   \<and> fst (exec (refusing auth_failed) ''web1'' Map.empty (SSHExecutor ''uptime'')) = Inr 0"
proof -
  let ?r = "refusing auth_failed"
  have k: "client_setup ?r = None" "client_close ?r = None"
    by (simp_all add: refusing_def answering_def)
  have a: "is_ssh_error auth_failed" and m: "message auth_failed = None"
    by (simp_all add: is_ssh_error_def auth_failed_def)
  have c: "do_connect ?r Map.empty = Some auth_failed"
    by (simp add: refusing_def answering_def do_connect_def)
  from k a m c exec_returns_exitcode [where r = ?r and h = "''web1''" and cfg = Map.empty
      and opn = "SSHExecutor ''uptime''" and e = auth_failed and pending = None
      and s = initial_wstate and x = io_error]
  show ?thesis by auto
qed

section \<open>Claims about the report\<close>




lemma map_host_sort_key: "map host (sort_key host ps) = sort (map host ps)"
  by (rule properties_for_sort [symmetric]) simp_all

lemma failures_hosts:
  "map host (failures ps) = sort (map host (filter (\<lambda>p. \<not> succeeded p) ps))"
  by (simp add: failures_def succeeded_def map_host_sort_key)

lemma sort_mset_cong: "mset xs = mset ys \<Longrightarrow> sort xs = sort ys"
  by (metis sorted_list_of_multiset_mset)




text \<open>
  Claim C7. The failed hosts are printed sorted by host identifier, one line each after
  the two summary lines; they are the processes whose exit code is not 0; and the list
  of hosts printed does not depend on the order of the processes.
\<close>

theorem failures_sorted:
  "sorted (map host (failures ps))
   \<and> set (failures ps) = {p \<in> set ps. \<not> succeeded p}
   \<and> drop 2 (print_result ps) = map (\<lambda>p. Print [[Str (CHR 0x09 # host p)]]) (failures ps)
   \<and> (mset ps' = mset ps \<longrightarrow> map host (failures ps') = map host (failures ps))"
proof -
  have "sorted (map host (failures ps))"
    by (simp add: failures_def)
  moreover have "set (failures ps) = {p \<in> set ps. \<not> succeeded p}"
    by (auto simp: failures_def succeeded_def)
  moreover have "drop 2 (print_result ps) =
      map (\<lambda>p. Print [[Str (CHR 0x09 # host p)]]) (failures ps)"
    by (simp add: print_result_def)
  moreover have "map host (failures ps') = map host (failures ps)" if "mset ps' = mset ps"
  proof -
    from that have "mset (map host (filter (\<lambda>p. \<not> succeeded p) ps')) =
        mset (map host (filter (\<lambda>p. \<not> succeeded p) ps))"
      by (metis mset_filter mset_map)
    then show ?thesis
      by (simp add: failures_hosts sort_mset_cong)
  qed
  ultimately show ?thesis by blast
qed

text \<open>The same three Workers in two orders give the same sorted list of failures.\<close>

theorem failures_sorted_witness:
  "mset [worker ''web1'' (Exited 1), worker ''db1'' (Exited 0), worker ''web2'' Signalled]
     = mset [worker ''web2'' Signalled, worker ''web1'' (Exited 1), worker ''db1'' (Exited 0)]
   \<and> map host (failures [worker ''web2'' Signalled, worker ''web1'' (Exited 1),
                          worker ''db1'' (Exited 0)]) = [''web1'', ''web2'']
   \<and> map host (failures [worker ''web1'' (Exited 1), worker ''db1'' (Exited 0),
                          worker ''web2'' Signalled]) = [''web1'', ''web2'']"
proof -
  let ?a = "[worker ''web1'' (Exited 1), worker ''db1'' (Exited 0), worker ''web2'' Signalled]"
  let ?b = "[worker ''web2'' Signalled, worker ''web1'' (Exited 1), worker ''db1'' (Exited 0)]"
  have m: "mset ?a = mset ?b"
    by (simp add: add_mset_commute)
  have f: "map host (failures ?b) = [''web1'', ''web2'']"
    by (simp add: failures_def worker_def proc_exitcode_def)
  from failures_sorted [of ?b ?a] m f show ?thesis
    by auto
qed

section \<open>Claims about the launch order\<close>

text \<open>
  Claim C4. With a positive interval, under every schedule: in every state reached, each
  Worker but the last one launched has an exit code, so Worker \<open>i + 1\<close> is never launched
  before Worker \<open>i\<close> has ended; the calls the Orchestrator has completed are a prefix of
  start, join, sleep for each host in turn; while the Worker being joined is alive a step
  of the Orchestrator changes nothing; and the \<^verbatim>\<open>sleep(0.3)\<close> of the last loop is never
  entered.
\<close>

theorem throttled_launch_order:
  assumes "0 < interval" and "s = start_procs env interval hosts starter evs"
  shows "(\<forall>i. Suc i < length (children s) \<longrightarrow> (\<exists>c. status (children s ! i) = Exited c))
         \<and> prefix (actions s) (script interval hosts)
         \<and> (\<forall>i hs. pc s = Joining i hs \<and> alive (children s ! i) \<longrightarrow>
               step env interval starter Orch s = s)
         \<and> pc s \<noteq> Drain_sleep"
proof -
  have t: "thr interval hosts s"
    using assms by (simp add: thr_start_procs)
  have "\<forall>i. Suc i < length (children s) \<longrightarrow> (\<exists>c. status (children s ! i) = Exited c)"
    using thr_previous_ended [OF t] by (simp add: ended_exited)
  moreover have "prefix (actions s) (script interval hosts)"
    using t by (rule thr_actions_prefix)
  moreover have "\<forall>i hs. pc s = Joining i hs \<and> alive (children s ! i) \<longrightarrow>
      step env interval starter Orch s = s"
    by simp
  moreover have "pc s \<noteq> Drain_sleep"
    using t by (auto simp: thr_def)
  ultimately show ?thesis by blast
qed

lemma throttled_run_state:
  "start_procs (store_env (Inr [])) 2 [''h1'', ''h2''] (SSHExecutor ''uptime'') throttled_run =
     \<lparr>children =
        [\<lparr>host = ''h1'', conf = Map.empty, oper = SSHExecutor ''uptime'', status = Exited 0\<rparr>,
         \<lparr>host = ''h2'', conf = Map.empty, oper = SSHExecutor ''uptime'', status = Running\<rparr>],
      processes = [0], pc = Joining 1 [],
      actions = [Started ''h1'', Joined ''h1'', Slept 2, Started ''h2'']\<rparr>"
  by (simp add: start_procs_def initial_def throttled_run_def Let_def store_env_def lookup_def
      worker_exit_def alive_def
      run_def exec_def finally_clause_def except_clauses_def try_body_def do_connect_def
      answering_def list_stream_def initial_wstate_def emit_def)

text \<open>Two hosts and an interval of two seconds, at the launch of the second Worker.\<close>

theorem throttled_launch_order_witness:
  "(0::real) < 2
   \<and> length (children (start_procs (store_env (Inr [])) 2 [''h1'', ''h2'']
         (SSHExecutor ''uptime'') throttled_run)) = 2
   \<and> status (children (start_procs (store_env (Inr [])) 2 [''h1'', ''h2'']
         (SSHExecutor ''uptime'') throttled_run) ! 0) = Exited 0
   \<and> prefix (actions (start_procs (store_env (Inr [])) 2 [''h1'', ''h2'']
         (SSHExecutor ''uptime'') throttled_run)) (script 2 [''h1'', ''h2''])"
proof -
  have pos: "(0::real) < 2" by simp
  from throttled_launch_order [OF pos refl, of "store_env (Inr [])" "[''h1'', ''h2'']"
      "SSHExecutor ''uptime''" throttled_run]
  have "prefix (actions (start_procs (store_env (Inr [])) 2 [''h1'', ''h2'']
         (SSHExecutor ''uptime'') throttled_run)) (script 2 [''h1'', ''h2''])"
    by blast
  then show ?thesis
    by (simp add: throttled_run_state)
qed

text \<open>
  Claim C5. Without a positive interval (the claim's interval 0), under every schedule:
  the calls the Orchestrator has completed are launches only, in the order of the hosts;
  it never joins and never sleeps between launches; when it is in the last loop every
  host has its Worker; and the schedule in which only the Orchestrator moves takes the
  loop through the launch of every Worker to the last loop with all of them still
  running, so no launch needs a Worker to have completed. That run of the loop is the
  run of \<^verbatim>\<open>start_procs\<close> whenever the configuration file could be parsed.
\<close>

theorem concurrent_launch:
  assumes "interval \<le> 0" and "s = start_procs env interval hosts starter evs"
  shows "prefix (actions s) (map Started hosts)
         \<and> (\<forall>i hs. pc s \<noteq> Joining i hs \<and> pc s \<noteq> Sleeping i hs)
         \<and> (pc s = While_test \<or> pc s = Drain_sleep \<or> pc s = Returned \<longrightarrow>
               map host (children s) = hosts)
         \<and> run_events env interval starter (replicate (Suc (length hosts)) Orch) (initial hosts) =
             \<lparr>children = map (fresh env starter) hosts, processes = [0..<length hosts],
              pc = While_test, actions = map Started hosts\<rparr>
         \<and> (ssh_config env = Inr l \<longrightarrow>
             start_procs env interval hosts starter (replicate (Suc (length hosts)) Orch) =
               \<lparr>children = map (fresh env starter) hosts, processes = [0..<length hosts],
                pc = While_test, actions = map Started hosts\<rparr>)
         \<and> list_all (\<lambda>p. status p = Running) (map (fresh env starter) hosts)"
proof -
  from assms(1) have n: "\<not> 0 < interval" by simp
  have c: "conc hosts s"
    using n assms(2) by (simp add: conc_start_procs)
  then have w: "wf hosts s" by (simp add: conc_def)
  have "prefix (actions s) (map Started hosts)"
    using c by (rule conc_actions_prefix)
  moreover have "\<forall>i hs. pc s \<noteq> Joining i hs \<and> pc s \<noteq> Sleeping i hs"
    using conc_never_waits [OF c] by blast
  moreover have "pc s = While_test \<or> pc s = Drain_sleep \<or> pc s = Returned \<longrightarrow>
      map host (children s) = hosts"
    using wf_draining [OF w] by blast
  moreover have "list_all (\<lambda>p. status p = Running) (map (fresh env starter) hosts)"
    by (simp add: list_all_iff fresh_def)
  moreover have "ssh_config env = Inr l \<longrightarrow>
      start_procs env interval hosts starter (replicate (Suc (length hosts)) Orch) =
        \<lparr>children = map (fresh env starter) hosts, processes = [0..<length hosts],
         pc = While_test, actions = map Started hosts\<rparr>"
    using all_launched_all_running [OF n] by blast
  ultimately show ?thesis
    using loop_launches_all [OF n, of env starter hosts] by blast
qed

text \<open>Two hosts and interval 0: both Workers are running when the last loop is reached.\<close>

theorem concurrent_launch_witness:
  "(0::real) \<le> 0 \<and> [''h1'', ''h2''] \<noteq> []
   \<and> start_procs (store_env (Inr [])) 0 [''h1'', ''h2''] (SSHExecutor ''uptime'') [Orch, Orch, Orch] =
       \<lparr>children =
          [\<lparr>host = ''h1'', conf = Map.empty, oper = SSHExecutor ''uptime'', status = Running\<rparr>,
           \<lparr>host = ''h2'', conf = Map.empty, oper = SSHExecutor ''uptime'', status = Running\<rparr>],
        processes = [0, 1], pc = While_test, actions = [Started ''h1'', Started ''h2'']\<rparr>"
proof -
  have z: "(0::real) \<le> 0" by simp
  have r: "replicate (Suc (length [''h1'', ''h2''])) Orch = [Orch, Orch, Orch]"
    by (simp add: numeral_2_eq_2)
  have u: "[0..<length [''h1'', ''h2'']] = [0, 1]"
    by (simp add: upt_rec)
  have g: "ssh_config (store_env (Inr [])) = Inr (\<lambda>h. Map.empty)"
    by (simp add: store_env_def)
  from g concurrent_launch [OF z refl, where env = "store_env (Inr [])"
      and hosts = "[''h1'', ''h2'']" and starter = "SSHExecutor ''uptime''" and evs = "[]"
      and l = "\<lambda>h. Map.empty"]
  have "start_procs (store_env (Inr [])) 0 [''h1'', ''h2''] (SSHExecutor ''uptime'')
          (replicate (Suc (length [''h1'', ''h2''])) Orch) =
        \<lparr>children = map (fresh (store_env (Inr [])) (SSHExecutor ''uptime'')) [''h1'', ''h2''],
         processes = [0..<length [''h1'', ''h2'']], pc = While_test,
         actions = map Started [''h1'', ''h2'']\<rparr>"
    by blast
  then show ?thesis
    unfolding r u by (simp add: fresh_def store_env_def lookup_def)
qed

section \<open>Claims about host selection and fatal errors\<close>

text \<open>
  Claim C6. When the store loads and the pattern compiles, \<^verbatim>\<open>get_hosts\<close> returns the
  stored identifiers that the pattern matches from their start, in the order of the
  store: an identifier is selected exactly when one of its prefixes is in the language of
  the pattern, where a full match would need the whole identifier to be. The third line
  printed is the selection sorted. The pattern \<open>web\<close> against a store whose identifiers
  are \<open>web1\<close>, \<open>web2\<close> and \<open>db1\<close> selects exactly \<open>web1\<close> and \<open>web2\<close>, although it
  matches neither in full.
\<close>

theorem host_selection_prefix_match:
  assumes "load_host_keys env = Inr keys"
    and "re_compile (re_parse env) pattern = Some rex"
  shows "get_hosts env pattern =
           (hosts_report (filter (re_match rex) keys), Return (filter (re_match rex) keys))
         \<and> (\<forall>k. re_match rex k \<longleftrightarrow> (\<exists>p. prefix p k \<and> p \<in> lang rex))
         \<and> (\<forall>k. fullmatch rex k \<longleftrightarrow> k \<in> lang rex)
         \<and> hosts_report (filter (re_match rex) keys) ! 2 =
             Print [[Str (join [CHR 0x0A] (sort (filter (re_match rex) keys)))]]
         \<and> sorted (sort (filter (re_match rex) keys))
         \<and> mset (sort (filter (re_match rex) keys)) = mset (filter (re_match rex) keys)
         \<and> (pattern = ''web'' \<and> set keys = {''web1'', ''web2'', ''db1''} \<longrightarrow>
               set (filter (re_match rex) keys) = {''web1'', ''web2''})
         \<and> re_match (literal ''web'') ''web1'' \<and> \<not> fullmatch (literal ''web'') ''web1''"
proof (intro conjI)
  show "get_hosts env pattern =
      (hosts_report (filter (re_match rex) keys), Return (filter (re_match rex) keys))"
    using assms by (simp add: get_hosts_def match_loop_filter Let_def)
  show "\<forall>k. re_match rex k \<longleftrightarrow> (\<exists>p. prefix p k \<and> p \<in> lang rex)"
    by (simp only: re_match_prefix simp_thms)
  show "\<forall>k. fullmatch rex k \<longleftrightarrow> k \<in> lang rex"
    by (simp only: fullmatch_lang simp_thms)
  show "hosts_report (filter (re_match rex) keys) ! 2 =
      Print [[Str (join [CHR 0x0A] (sort (filter (re_match rex) keys)))]]"
    by (simp add: hosts_report_def Let_def numeral_2_eq_2)
  show "sorted (sort (filter (re_match rex) keys))"
    by (rule sorted_sort)
  show "mset (sort (filter (re_match rex) keys)) = mset (filter (re_match rex) keys)"
    by (rule mset_sort)
  show "pattern = ''web'' \<and> set keys = {''web1'', ''web2'', ''db1''} \<longrightarrow>
      set (filter (re_match rex) keys) = {''web1'', ''web2''}"
  proof
    assume w: "pattern = ''web'' \<and> set keys = {''web1'', ''web2'', ''db1''}"
    with assms(2) have rex: "rex = literal ''web''"
      by (simp add: re_compile_def metachar_def)
    have m: "re_match (literal ''web'') ''web1''" "re_match (literal ''web'') ''web2''"
      "\<not> re_match (literal ''web'') ''db1''"
      by simp_all
    have "set (filter (re_match rex) keys) = {k \<in> set keys. re_match (literal ''web'') k}"
      by (simp add: rex)
    also have "\<dots> = {k \<in> {''web1'', ''web2'', ''db1''}. re_match (literal ''web'') k}"
      using w by simp
    also have "\<dots> = {''web1'', ''web2''}"
      using m by blast
    finally show "set (filter (re_match rex) keys) = {''web1'', ''web2''}" .
  qed
  show "re_match (literal ''web'') ''web1''"
    by simp
  show "\<not> fullmatch (literal ''web'') ''web1''"
    by simp
qed

text \<open>The store in the order \<open>web2\<close>, \<open>db1\<close>, \<open>web1\<close>: selected in that order, printed sorted.\<close>

theorem host_selection_prefix_match_witness:
  "get_hosts (store_env (Inr [''web2'', ''db1'', ''web1''])) ''web'' =
     ([Print [[Str ''>>> '', Colored_num 2 (Some ''green'') [''bold''], Str '' Hosts matched:'']],
       Print [[Str []]],
       Print [[Str (''web1'' @ [CHR 0x0A] @ ''web2'')]],
       Print [[Str []]]],
      Return [''web2'', ''web1''])"
proof -
  have l: "load_host_keys (store_env (Inr [''web2'', ''db1'', ''web1''])) =
      Inr [''web2'', ''db1'', ''web1'']"
    by (simp add: store_env_def)
  have c: "re_compile (re_parse (store_env (Inr [''web2'', ''db1'', ''web1'']))) ''web'' =
      Some (literal ''web'')"
    by (simp add: re_compile_def metachar_def)
  have f: "filter (re_match (literal ''web'')) [''web2'', ''db1'', ''web1''] = [''web2'', ''web1'']"
    by simp
  have r: "hosts_report [''web2'', ''web1''] =
     [Print [[Str ''>>> '', Colored_num 2 (Some ''green'') [''bold''], Str '' Hosts matched:'']],
       Print [[Str []]],
       Print [[Str (''web1'' @ [CHR 0x0A] @ ''web2'')]],
       Print [[Str []]]]"
    by (simp add: hosts_report_def)
  from host_selection_prefix_match [OF l c] show ?thesis
    unfolding f r by blast
qed

text \<open>
  Claim C8, as stated: every fatal error, an unreadable store among them, aborts with a
  message for the user. A store that cannot be read raises \<^verbatim>\<open>IOError\<close>, which
  \<^verbatim>\<open>get_hosts\<close> does not catch: the invocation ends with that exception, having
  printed nothing.
\<close>

theorem unreadable_store_no_message:
  "load_host_keys (store_env (Inl io_error)) = Inl io_error
   \<and> cls io_error = IOError
   \<and> dispatch (store_env (Inl io_error)) (Command_args ''web'' 0 ''uptime'') [] =
       ([], Raise io_error, None)"
  by (simp add: dispatch_def get_hosts_def store_env_def io_error_def is_ssh_error_def)

text \<open>
  Claim C8, amended. An invalid pattern, a corrupt store (an SSH error that carries a
  message) and a missing source of a copy end the invocation through \<^verbatim>\<open>sys.exit\<close>
  with a message for the user, and a store that raises any other exception ends it with
  that exception; in each case \<^verbatim>\<open>start_procs\<close> is never entered, so no Worker is
  launched. The copy exits with status 1, as every exit with a message does.
\<close>

theorem fatal_errors_abort_before_launch:
  "(load_host_keys env = Inr keys \<and> re_compile (re_parse env) (hostregex a) = None \<longrightarrow>
      dispatch env a evs =
        ([], Exit (Message [Colored ''Invalid regular expression!'' (Some ''red'') [''bold'']]), None))
   \<and> (load_host_keys env = Inl e \<and> is_ssh_error e \<and> message e = Some m \<longrightarrow>
      dispatch env a evs =
        ([Print [[Colored ''Error in ~/.ssh/known_hosts:'' (Some ''red'') [''bold'']]]],
         Exit (Message [Colored m (Some ''red'') []]), None))
   \<and> (load_host_keys env = Inl e \<and> \<not> is_ssh_error e \<longrightarrow>
      dispatch env a evs = ([], Raise e, None))
   \<and> (load_host_keys env = Inr keys \<and> re_compile (re_parse env) rx = Some rex
        \<and> \<not> isfile env src \<longrightarrow>
      dispatch env (Copy_args rx i src dst) evs =
        (hosts_report (filter (re_match rex) keys)
           @ [Print [[Colored (''>>> Source '' @ src @ '' does not exist'') (Some ''red'') []]]],
         Exit (Status 1), None))
   \<and> launched (out, r, None) = 0
   \<and> exit_code (Message msg) = 1 \<and> exit_code (Status 1) = 1"
proof (intro conjI impI)
  assume "load_host_keys env = Inr keys \<and> re_compile (re_parse env) (hostregex a) = None"
  then show "dispatch env a evs =
      ([], Exit (Message [Colored ''Invalid regular expression!'' (Some ''red'') [''bold'']]), None)"
    by (simp add: dispatch_def get_hosts_def)
next
  assume "load_host_keys env = Inl e \<and> is_ssh_error e \<and> message e = Some m"
  then show "dispatch env a evs =
      ([Print [[Colored ''Error in ~/.ssh/known_hosts:'' (Some ''red'') [''bold'']]]],
       Exit (Message [Colored m (Some ''red'') []]), None)"
    by (simp add: dispatch_def get_hosts_def)
next
  assume "load_host_keys env = Inl e \<and> \<not> is_ssh_error e"
  then show "dispatch env a evs = ([], Raise e, None)"
    by (simp add: dispatch_def get_hosts_def)
next
  assume "load_host_keys env = Inr keys \<and> re_compile (re_parse env) rx = Some rex
      \<and> \<not> isfile env src"
  then show "dispatch env (Copy_args rx i src dst) evs =
      (hosts_report (filter (re_match rex) keys)
         @ [Print [[Colored (''>>> Source '' @ src @ '' does not exist'') (Some ''red'') []]]],
       Exit (Status 1), None)"
    by (simp add: dispatch_def get_hosts_def copy_def match_loop_filter Let_def)
qed simp_all

text \<open>One invocation for each of the four cases.\<close>

theorem fatal_errors_abort_before_launch_witness:
  "dispatch (store_env (Inr [''web1''])) (Command_args ''we['' 0 ''uptime'') [Orch] =
     ([], Exit (Message [Colored ''Invalid regular expression!'' (Some ''red'') [''bold'']]), None)
   \<and> dispatch (store_env (Inl invalid_key)) (Command_args ''web'' 0 ''uptime'') [Orch] =
     ([Print [[Colored ''Error in ~/.ssh/known_hosts:'' (Some ''red'') [''bold'']]]],
      Exit (Message [Colored ''Invalid key'' (Some ''red'') []]), None)
   \<and> dispatch (store_env (Inl io_error)) (Command_args ''web'' 0 ''uptime'') [Orch] =
     ([], Raise io_error, None)
   \<and> dispatch (store_env (Inr [''web1''])) (Copy_args ''web'' 0 ''a.txt'' ''b.txt'') [Orch] =
     (hosts_report [''web1'']
        @ [Print [[Colored (''>>> Source '' @ ''a.txt'' @ '' does not exist'') (Some ''red'') []]]],
      Exit (Status 1), None)"
proof -
  have l: "load_host_keys (store_env st) = st" for st
    by (simp add: store_env_def)
  have bad: "re_compile (re_parse (store_env st)) ''we['' = None" for st
    by (simp add: re_compile_def metachar_def store_env_def)
  have good: "re_compile (re_parse (store_env st)) ''web'' = Some (literal ''web'')" for st
    by (simp add: re_compile_def metachar_def)
  have nofile: "\<not> isfile (store_env st) ''a.txt''" for st
    by (simp add: store_env_def)
  have k: "is_ssh_error invalid_key" "message invalid_key = Some ''Invalid key''"
    "\<not> is_ssh_error io_error"
    by (simp_all add: is_ssh_error_def invalid_key_def io_error_def)
  have f: "filter (re_match (literal ''web'')) [''web1''] = [''web1'']"
    by simp
  have 1: "dispatch (store_env (Inr [''web1''])) (Command_args ''we['' 0 ''uptime'') [Orch] =
     ([], Exit (Message [Colored ''Invalid regular expression!'' (Some ''red'') [''bold'']]), None)"
    using fatal_errors_abort_before_launch [where env = "store_env (Inr [''web1''])"
        and keys = "[''web1'']" and a = "Command_args ''we['' 0 ''uptime''" and evs = "[Orch]"] l bad
    by simp
  have 2: "dispatch (store_env (Inl invalid_key)) (Command_args ''web'' 0 ''uptime'') [Orch] =
     ([Print [[Colored ''Error in ~/.ssh/known_hosts:'' (Some ''red'') [''bold'']]]],
      Exit (Message [Colored ''Invalid key'' (Some ''red'') []]), None)"
    using fatal_errors_abort_before_launch [where env = "store_env (Inl invalid_key)"
        and a = "Command_args ''web'' 0 ''uptime''" and evs = "[Orch]" and e = invalid_key
        and m = "''Invalid key''"] l k
    by simp
  have 3: "dispatch (store_env (Inl io_error)) (Command_args ''web'' 0 ''uptime'') [Orch] =
     ([], Raise io_error, None)"
    using fatal_errors_abort_before_launch [where env = "store_env (Inl io_error)"
        and a = "Command_args ''web'' 0 ''uptime''" and evs = "[Orch]" and e = io_error] l k
    by simp
  have 4: "dispatch (store_env (Inr [''web1''])) (Copy_args ''web'' 0 ''a.txt'' ''b.txt'') [Orch] =
     (hosts_report [''web1'']
        @ [Print [[Colored (''>>> Source '' @ ''a.txt'' @ '' does not exist'') (Some ''red'') []]]],
      Exit (Status 1), None)"
    using fatal_errors_abort_before_launch [where env = "store_env (Inr [''web1''])"
        and keys = "[''web1'']" and rx = "''web''" and rex = "literal ''web''"
        and src = "''a.txt''" and i = 0 and dst = "''b.txt''" and evs = "[Orch]"] l good nofile f
    by simp
  from 1 2 3 4 show ?thesis by blast
qed





end
